theory Spec2Isabelle
  imports
    Complex_Main
    "HOL-Library.Sublist"
    "HOL-Library.Char_ord"
    "HOL-Library.List_Lexorder"
begin

section \<open>in-toto runlib: recording artifacts, running commands, writing link metadata\<close>

text \<open>
  A shallow embedding of \<^verbatim>\<open>src/in_toto/runlib.py\<close>. Every function of the module is a
  HOL function of the same name (without the leading underscore of a private one). What the module does to the process and to the disk
  (current working directory, files read for hashing, metadata files written and removed,
  child processes started and killed, text echoed to the terminal) is a field of the
  record \<open>world\<close>, passed in and returned. An exception is a value \<open>Inl e\<close> of the
  result type \<open>error + 'a\<close>.

  Python's optional arguments: an optional string is a \<open>string option\<close> and is truthy
  when it is \<open>Some\<close> of a non-empty string; an optional list is a list, whose empty
  value stands for both \<^verbatim>\<open>None\<close> and \<^verbatim>\<open>[]\<close> (the module tests such arguments only for
  truthiness); an optional key is a \<open>key option\<close>.
\<close>

subsection \<open>Strings and POSIX paths (the Python library functions the module calls)\<close>

definition startswith :: "string \<Rightarrow> string \<Rightarrow> bool" where
  \<comment> \<open>\<^verbatim>\<open>s.startswith(p)\<close>\<close>
  "startswith s p = prefix p s"

definition endswith :: "string \<Rightarrow> string \<Rightarrow> bool" where
  \<comment> \<open>\<^verbatim>\<open>s.endswith(p)\<close>: the reversed \<open>p\<close> starts the reversed \<open>s\<close>\<close>
  "endswith s p = prefix (rev p) (rev s)"

definition replace_backslash :: "string \<Rightarrow> string" where
  \<comment> \<open>\<^verbatim>\<open>s.replace('\\', '/')\<close>; the backslash is character 0x5C\<close>
  "replace_backslash s = map (\<lambda>c. if c = CHR 0x5C then CHR ''/'' else c) s"

fun split_slash :: "string \<Rightarrow> string list" where
  \<comment> \<open>\<^verbatim>\<open>s.split('/')\<close>: never empty, \<open>n\<close> separators give \<open>n + 1\<close> fields\<close>
  "split_slash [] = [[]]"
| "split_slash (c # cs) =
     (if c = CHR ''/'' then [] # split_slash cs
      else (case split_slash cs of
              [] \<Rightarrow> [[c]]
            | x # xs \<Rightarrow> (c # x) # xs))"

fun join_slash :: "string list \<Rightarrow> string" where
  \<comment> \<open>\<^verbatim>\<open>'/'.join(comps)\<close>\<close>
  "join_slash [] = []"
| "join_slash [x] = x"
| "join_slash (x # y # ys) = x @ CHR ''/'' # join_slash (y # ys)"

definition os_path_join :: "string \<Rightarrow> string \<Rightarrow> string" where
  \<comment> \<open>\<^verbatim>\<open>posixpath.join(a, b)\<close>\<close>
  "os_path_join a b =
     (if startswith b ''/'' then b
      else if a = [] \<or> endswith a ''/'' then a @ b
      else a @ ''/'' @ b)"

definition os_path_basename :: "string \<Rightarrow> string" where
  \<comment> \<open>\<^verbatim>\<open>posixpath.basename(p)\<close>: what follows the last slash\<close>
  "os_path_basename p = rev (takeWhile (\<lambda>c. c \<noteq> CHR ''/'') (rev p))"

definition os_path_dirname :: "string \<Rightarrow> string" where
  \<comment> \<open>\<^verbatim>\<open>posixpath.dirname(p)\<close>: up to the last slash, trailing slashes stripped
      unless nothing else is left\<close>
  "os_path_dirname p =
     (let head = rev (dropWhile (\<lambda>c. c \<noteq> CHR ''/'') (rev p))
      in if head \<noteq> [] \<and> head \<noteq> replicate (length head) CHR ''/''
         then rev (dropWhile (\<lambda>c. c = CHR ''/'') (rev head))
         else head)"

definition initial_slashes :: "string \<Rightarrow> nat" where
  \<comment> \<open>POSIX keeps exactly two leading slashes apart from one and from three or more\<close>
  "initial_slashes path =
     (if startswith path ''/''
      then (if startswith path ''//'' \<and> \<not> startswith path ''///'' then 2 else 1)
      else 0)"

definition normpath_step :: "nat \<Rightarrow> string list \<Rightarrow> string \<Rightarrow> string list" where
  \<comment> \<open>the body of the loop over the components in \<^verbatim>\<open>posixpath.normpath\<close>\<close>
  "normpath_step ini new_comps cmp =
     (if cmp = [] \<or> cmp = ''.'' then new_comps
      else if cmp \<noteq> ''..'' \<or> (ini = 0 \<and> new_comps = [])
              \<or> (new_comps \<noteq> [] \<and> last new_comps = ''..'')
           then new_comps @ [cmp]
      else if new_comps \<noteq> [] then butlast new_comps
      else new_comps)"

definition os_path_normpath :: "string \<Rightarrow> string" where
  \<comment> \<open>\<^verbatim>\<open>posixpath.normpath(path)\<close>\<close>
  "os_path_normpath path =
     (if path = [] then ''.''
      else
        let ini = initial_slashes path;
            comps = foldl (normpath_step ini) [] (split_slash path);
            p = replicate ini CHR ''/'' @ join_slash comps
        in if p = [] then ''.'' else p)"

subsection \<open>The file system that artifacts are read from\<close>

text \<open>
  A directory is the list of its entries. The flag of \<open>Dir\<close> says that the entry is a
  symbolic link to the directory. \<open>Other\<close> is what is neither a file nor a directory
  for \<^verbatim>\<open>os.path.isfile\<close> and \<^verbatim>\<open>os.path.isdir\<close>: a dangling link, a socket, a device.
  The tree is finite: a link that leads back into its own ancestors is outside the model
  (the docstring of \<^verbatim>\<open>record_artifacts_as_dict\<close> warns that the walk then does not end).
\<close>

datatype node = File string | Other | Dir bool "(string \<times> node) list"

fun descend :: "node \<Rightarrow> string list \<Rightarrow> node option" where
  "descend n [] = Some n"
| "descend (Dir l es) (c # cs) =
     (case map_of es c of None \<Rightarrow> None | Some n \<Rightarrow> descend n cs)"
| "descend (File v) (c # cs) = None"
| "descend Other (c # cs) = None"

definition path_comps :: "string \<Rightarrow> string list" where
  "path_comps p = filter (\<lambda>c. c \<noteq> []) (split_slash p)"


subsection \<open>Exceptions, keys, link metadata\<close>

datatype error =
    FormatError
      \<comment> \<open>\<^verbatim>\<open>securesystemslib.exceptions.FormatError\<close>, raised by a schema's \<^verbatim>\<open>check_match\<close>\<close>
  | ValueError_base_path string
      \<comment> \<open>\<^verbatim>\<open>ValueError("Could not use '{}' as base path: ...")\<close>\<close>
  | ValueError_no_key
      \<comment> \<open>\<^verbatim>\<open>ValueError("Pass either a signing key, a gpg keyid or set gpg_use_default ...")\<close>\<close>
  | PrefixError_substring string string
      \<comment> \<open>\<^verbatim>\<open>PrefixError("'{}' and '{}' triggered a left substring error")\<close>\<close>
  | PrefixError_key string
      \<comment> \<open>\<^verbatim>\<open>PrefixError("Prefix selection has resulted in non unique dictionary key '{}'")\<close>\<close>
  | StorageError
      \<comment> \<open>\<^verbatim>\<open>digest_filename\<close> cannot read the file\<close>
  | OSError
      \<comment> \<open>\<^verbatim>\<open>os.chdir\<close>, \<^verbatim>\<open>os.remove\<close>, \<^verbatim>\<open>subprocess.Popen\<close> (command missing or not executable)\<close>
  | TimeoutExpired "string list" real
      \<comment> \<open>\<^verbatim>\<open>subprocess.TimeoutExpired(cmd, timeout)\<close>: the command and the timeout, no output\<close>
  | UnicodeDecodeError
      \<comment> \<open>a \<^verbatim>\<open>read\<close> of a file opened in text mode meets bytes that are no text\<close>
  | LinkNotFoundError "string list"
      \<comment> \<open>with the file names that the message lists (none when no file was found)\<close>
  | SignatureVerificationError
  | IOError
      \<comment> \<open>\<^verbatim>\<open>Metadata.load\<close> and \<^verbatim>\<open>dump\<close> cannot read or write the file\<close>
  | IndexError
      \<comment> \<open>\<^verbatim>\<open>link_metadata.signatures[0]\<close> on metadata without a signature\<close>
  | SigningError
      \<comment> \<open>what \<^verbatim>\<open>create_signature\<close> and \<^verbatim>\<open>export_pubkey\<close> raise: CryptoError, gpg errors\<close>

record key =
  keyid :: string
  keytype :: string
  scheme :: string
  keyval_public :: string
  keyval_private :: "string option"  \<comment> \<open>\<^verbatim>\<open>key["keyval"].get("private")\<close>\<close>

record signature =
  sig_keyid :: string
  sig_value :: string

datatype byproduct = Text string | Code int

type_synonym hashdict = "string \<rightharpoonup> string"
type_synonym artifacts_dict = "string \<rightharpoonup> hashdict"

record link =
  name :: string
  materials :: artifacts_dict
  products :: artifacts_dict
  command :: "string list"
  byproducts :: "string \<rightharpoonup> byproduct"
  environment :: "string \<rightharpoonup> string"

text \<open>
  The two classes of \<^verbatim>\<open>in_toto.models.metadata\<close>: \<^verbatim>\<open>Metablock(signed, signatures,
  compact_json)\<close> and the DSSE \<^verbatim>\<open>Envelope\<close> with its payload and signatures.
\<close>

datatype metadata =
    Metablock link "signature list" bool
  | Envelope link "signature list"

fun signatures :: "metadata \<Rightarrow> signature list" where
  "signatures (Metablock l sigs c) = sigs"
| "signatures (Envelope l sigs) = sigs"

fun get_payload :: "metadata \<Rightarrow> link" where
  "get_payload (Metablock l sigs c) = l"
| "get_payload (Envelope l sigs) = l"

fun add_signature :: "metadata \<Rightarrow> signature \<Rightarrow> metadata" where
  \<comment> \<open>\<^verbatim>\<open>create_signature\<close> appends the new signature to the object it is called on\<close>
  "add_signature (Metablock l sigs c) s = Metablock l (sigs @ [s]) c"
| "add_signature (Envelope l sigs) s = Envelope l (sigs @ [s])"

datatype signer = SSlibSigner key | GPGSigner "string option" "string option"

subsection \<open>The process and the disk\<close>

text \<open>
  A file opened in text mode is decoded with the encoding of the locale, and strictly.
  Bytes and characters are both of type \<open>char\<close>. A \<open>codec\<close> is the decoder of an
  encoding: \<open>dec bytes final\<close> is \<open>None\<close> when the bytes are no text (Python raises
  \<^verbatim>\<open>UnicodeDecodeError\<close>), and else the characters decoded together with the bytes at the
  end that start a character and do not finish it, which the decoder keeps for its next
  call. With \<open>final\<close>, at the end of the file, an unfinished character is no text.
\<close>

type_synonym codec = "string \<Rightarrow> bool \<Rightarrow> (string \<times> string) option"

record world =
  cwd :: string
    \<comment> \<open>\<^verbatim>\<open>os.getcwd()\<close>\<close>
  root :: node
    \<comment> \<open>the directory tree at \<^verbatim>\<open>/\<close> that artifacts are read from\<close>
  links :: "string \<rightharpoonup> metadata"
    \<comment> \<open>the metadata files on disk, by path joined to the working directory: what
        \<^verbatim>\<open>Metadata.load\<close> reads, \<^verbatim>\<open>dump\<close> writes and \<^verbatim>\<open>os.remove\<close> deletes\<close>
  writable :: "string \<Rightarrow> bool"
    \<comment> \<open>whether \<^verbatim>\<open>dump\<close> can write there\<close>
  digested :: "string list"
    \<comment> \<open>the paths handed to \<^verbatim>\<open>digest_filename\<close> so far, oldest first\<close>
  launched :: "string list list"
    \<comment> \<open>the commands started as child processes so far\<close>
  killed :: nat
    \<comment> \<open>how many child processes were killed\<close>
  tmpfiles :: "string list"
    \<comment> \<open>the temporary files of \<^verbatim>\<open>tempfile.mkstemp\<close> that exist\<close>
  sys_stdout :: string
  sys_stderr :: string
    \<comment> \<open>what was written to the parent's own standard streams\<close>
  encoding :: codec
    \<comment> \<open>the encoding of the locale, which \<^verbatim>\<open>io.open(name, "r")\<close> decodes with\<close>

text \<open>
  What the module takes from other modules and libraries is a parameter: the schemas of
  \<^verbatim>\<open>securesystemslib.formats\<close>, the matcher of \<^verbatim>\<open>pathspec\<close> (\<open>gitwildmatch pats p\<close>:
  the path \<open>p\<close> is among \<^verbatim>\<open>PathSpec.from_lines('gitwildmatch', pats).match_files(..)\<close>),
  the digest of a file's content, signing, verification and gpg key export, \<^verbatim>\<open>glob.glob\<close>
  on the directory as it is when the function is called, and the three settings of
  \<^verbatim>\<open>in_toto.settings\<close> that the module reads.
\<close>

record ext =
  NAMES_SCHEMA :: "string list \<Rightarrow> bool"
  PATHS_SCHEMA :: "string list \<Rightarrow> bool"
  LIST_OF_ANY_STRING_SCHEMA :: "string list \<Rightarrow> bool"
  HASHALGORITHMS_SCHEMA :: "string list \<Rightarrow> bool"
  HASHDICT_SCHEMA :: "hashdict \<Rightarrow> bool"
  PATH_SCHEMA :: "string \<Rightarrow> bool"
  KEYID_SCHEMA :: "string \<Rightarrow> bool"
  KEY_SCHEMA :: "key \<Rightarrow> bool"
  gitwildmatch :: "string list \<Rightarrow> string \<Rightarrow> bool"
  digest_filename :: "string \<Rightarrow> bool \<Rightarrow> string \<Rightarrow> error + string"
    \<comment> \<open>algorithm, \<^verbatim>\<open>normalize_line_endings\<close>, content of the file: the hex digest\<close>
  create_signature :: "metadata \<Rightarrow> signer \<Rightarrow> error + signature"
  verify_signature :: "metadata \<Rightarrow> key \<Rightarrow> bool"
  export_pubkey :: "string \<Rightarrow> string option \<Rightarrow> error + key"
  glob_glob :: "string \<Rightarrow> string list"
  ARTIFACT_BASE_PATH :: "string option"
  ARTIFACT_EXCLUDE_PATTERNS :: "string list"
  LINK_CMD_EXEC_TIMEOUT :: real

definition truthy :: "string option \<Rightarrow> bool" where
  \<comment> \<open>\<^verbatim>\<open>if s:\<close> for an optional string\<close>
  "truthy s = (case s of None \<Rightarrow> False | Some v \<Rightarrow> v \<noteq> [])"

definition stat :: "world \<Rightarrow> string \<Rightarrow> node option" where
  \<comment> \<open>what a path names, seen from the working directory\<close>
  "stat w p = descend (root w) (path_comps (os_path_normpath (os_path_join (cwd w) p)))"

definition os_path_isfile :: "world \<Rightarrow> string \<Rightarrow> bool" where
  "os_path_isfile w p = (case stat w p of Some (File c) \<Rightarrow> True | _ \<Rightarrow> False)"

definition os_path_isdir :: "world \<Rightarrow> string \<Rightarrow> bool" where
  "os_path_isdir w p = (case stat w p of Some (Dir l es) \<Rightarrow> True | _ \<Rightarrow> False)"

definition os_chdir :: "string \<Rightarrow> world \<Rightarrow> error + world" where
  \<comment> \<open>the new working directory is named by the joined path\<close>
  "os_chdir p w =
     (if os_path_isdir w p then Inr (w\<lparr>cwd := os_path_join (cwd w) p\<rparr>) else Inl OSError)"

definition Metadata_load :: "string \<Rightarrow> world \<Rightarrow> error + metadata" where
  "Metadata_load path w =
     (case links w (os_path_join (cwd w) path) of None \<Rightarrow> Inl IOError | Some md \<Rightarrow> Inr md)"

definition dump :: "metadata \<Rightarrow> string \<Rightarrow> world \<Rightarrow> error + world" where
  "dump md path w =
     (let p = os_path_join (cwd w) path
      in if writable w p then Inr (w\<lparr>links := (links w)(p \<mapsto> md)\<rparr>) else Inl IOError)"

definition os_remove :: "string \<Rightarrow> world \<Rightarrow> error + world" where
  "os_remove path w =
     (let p = os_path_join (cwd w) path
      in if links w p = None then Inl OSError else Inr (w\<lparr>links := (links w)(p := None)\<rparr>))"

subsection \<open>File names of link metadata\<close>

definition keyid_prefix :: "string \<Rightarrow> string" where
  \<comment> \<open>Modelled from the spec: the constants of \<^verbatim>\<open>in_toto.models.link\<close> are not part of
      the source at hand; the spec names the files \<^verbatim>\<open><step-name>.<keyid-prefix>.link\<close>,
      and the module prints a key id as \<^verbatim>\<open>{:.8}\<close>, its first eight characters.\<close>
  "keyid_prefix k = take 8 k"

definition FILENAME_FORMAT :: "string \<Rightarrow> string \<Rightarrow> string" where
  \<comment> \<open>Modelled from the spec: \<^verbatim>\<open><step-name>.<keyid-prefix>.link\<close>\<close>
  "FILENAME_FORMAT step_name kid = step_name @ ''.'' @ keyid_prefix kid @ ''.link''"

definition FILENAME_FORMAT_SHORT :: "string \<Rightarrow> string" where
  \<comment> \<open>Modelled from the spec: \<^verbatim>\<open><step-name>.link\<close>\<close>
  "FILENAME_FORMAT_SHORT step_name = step_name @ ''.link''"

definition UNFINISHED_FILENAME_FORMAT :: "string \<Rightarrow> string \<Rightarrow> string" where
  \<comment> \<open>Modelled from the spec: \<^verbatim>\<open>.<step-name>.<keyid-prefix>.link-unfinished\<close>\<close>
  "UNFINISHED_FILENAME_FORMAT step_name kid =
     ''.'' @ step_name @ ''.'' @ keyid_prefix kid @ ''.link-unfinished''"

definition UNFINISHED_FILENAME_FORMAT_GLOB :: "string \<Rightarrow> string \<Rightarrow> string" where
  \<comment> \<open>Modelled from the spec: the unfinished file name with a pattern for the key id\<close>
  "UNFINISHED_FILENAME_FORMAT_GLOB step_name pat =
     ''.'' @ step_name @ ''.'' @ pat @ ''.link-unfinished''"

subsection \<open>Hashing, exclusion, prefix stripping\<close>

fun digest_each ::
  "ext \<Rightarrow> string \<Rightarrow> bool \<Rightarrow> string list \<Rightarrow> hashdict \<Rightarrow> world \<Rightarrow> (error + hashdict) \<times> world"
where
  \<comment> \<open>the loop over the algorithms in \<^verbatim>\<open>_hash_artifact\<close>\<close>
  "digest_each x filepath nle [] hash_dict w = (Inr hash_dict, w)"
| "digest_each x filepath nle (algorithm # rest) hash_dict w =
     (let w' = w\<lparr>digested := digested w @ [os_path_join (cwd w) filepath]\<rparr>
      in case stat w filepath of
           Some (File content) \<Rightarrow>
             (case digest_filename x algorithm nle content of
                Inl e \<Rightarrow> (Inl e, w')
              | Inr h \<Rightarrow> digest_each x filepath nle rest (hash_dict(algorithm \<mapsto> h)) w')
         | _ \<Rightarrow> (Inl StorageError, w'))"

definition hash_artifact ::
  "ext \<Rightarrow> string \<Rightarrow> string list \<Rightarrow> bool \<Rightarrow> world \<Rightarrow> (error + hashdict) \<times> world"
where
  \<comment> \<open>\<^verbatim>\<open>_hash_artifact(filepath, hash_algorithms, normalize_line_endings)\<close>\<close>
  "hash_artifact x filepath hash_algorithms nle w =
     (let algs = (if hash_algorithms = [] then [''sha256''] else hash_algorithms)
      in if \<not> HASHALGORITHMS_SCHEMA x algs then (Inl FormatError, w)
         else case digest_each x filepath nle algs Map.empty w of
                (Inl e, w') \<Rightarrow> (Inl e, w')
              | (Inr hash_dict, w') \<Rightarrow>
                  if \<not> HASHDICT_SCHEMA x hash_dict then (Inl FormatError, w')
                  else (Inr hash_dict, w'))"

definition apply_exclude_patterns :: "ext \<Rightarrow> string list \<Rightarrow> string list \<Rightarrow> string list" where
  \<comment> \<open>\<^verbatim>\<open>_apply_exclude_patterns(names, exclude_filter)\<close>: the names as a set, without
      the matched ones, sorted\<close>
  "apply_exclude_patterns x names exclude_filter =
     sort (remdups (filter (\<lambda>n. \<not> gitwildmatch x exclude_filter n) names))"

fun left_strip :: "string \<Rightarrow> string list \<Rightarrow> string" where
  \<comment> \<open>the loop of \<^verbatim>\<open>_apply_left_strip\<close>, left at the first prefix that matches\<close>
  "left_strip artifact_filepath [] = artifact_filepath"
| "left_strip artifact_filepath (pre # rest) =
     (if startswith artifact_filepath pre then drop (length pre) artifact_filepath
      else left_strip artifact_filepath rest)"

definition apply_left_strip :: "string \<Rightarrow> artifacts_dict \<Rightarrow> string list \<Rightarrow> error + string" where
  \<comment> \<open>\<^verbatim>\<open>_apply_left_strip(artifact_filepath, artifacts_dict, lstrip_paths)\<close>\<close>
  "apply_left_strip artifact_filepath artifacts_dict lstrip_paths =
     (if lstrip_paths \<noteq> [] then
        (let stripped = left_strip artifact_filepath lstrip_paths
         in if artifacts_dict stripped \<noteq> None then Inl (PrefixError_key stripped)
            else Inr stripped)
      else Inr artifact_filepath)"


subsection \<open>Walking a directory\<close>

fun is_dir_entry :: "node \<Rightarrow> bool" where
  "is_dir_entry (Dir l es) = True"
| "is_dir_entry n = False"

definition dir_names :: "(string \<times> node) list \<Rightarrow> string list" where
  "dir_names es = map fst (filter (\<lambda>e. is_dir_entry (snd e)) es)"

definition nondir_names :: "(string \<times> node) list \<Rightarrow> string list" where
  "nondir_names es = map fst (filter (\<lambda>e. \<not> is_dir_entry (snd e)) es)"

lemma map_of_size_less:
  "map_of es nm = Some n \<Longrightarrow> size n < Suc (size_list (size_prod (\<lambda>_. 0) size) es)"
  by (induction es) (auto split: if_splits)

text \<open>
  \<^verbatim>\<open>os.walk(top, followlinks)\<close>, top down: a directory yields its own path with the
  names of its subdirectories and of its other entries, the caller may change the list
  of subdirectories in place, and the walk then goes into what the list names, in the
  list's order, skipping a linked directory unless \<open>followlinks\<close>. A name that is no
  directory there yields nothing (the error of \<^verbatim>\<open>scandir\<close> is ignored). The caller's
  change of the list is the argument \<open>prune\<close>, a function of the yielded path and names;
  the walk returns the yielded paths with the names of the entries that are no
  directories.
\<close>

function os_walk ::
  "bool \<Rightarrow> (string \<Rightarrow> string list \<Rightarrow> string list) \<Rightarrow> string \<Rightarrow> (string \<times> node) list
     \<Rightarrow> (string \<times> string list) list"
where
  "os_walk followlinks prune walk_top es =
     (walk_top, nondir_names es) #
     concat (map (\<lambda>dirname.
                    case map_of es dirname of
                      Some (Dir l sub) \<Rightarrow>
                        if followlinks \<or> \<not> l
                        then os_walk followlinks prune (os_path_join walk_top dirname) sub
                        else []
                    | _ \<Rightarrow> [])
                 (prune walk_top (dir_names es)))"
  by pat_completeness auto
termination
proof (relation "measure (\<lambda>(f, p, t, es). size_list (size_prod (\<lambda>_. 0) size) es)")
  show "wf (measure (\<lambda>(f, p, t, es). size_list (size_prod (\<lambda>_. 0) size) es))"
    by simp
next
  fix followlinks :: bool and prune :: "string \<Rightarrow> string list \<Rightarrow> string list"
    and walk_top :: string and es :: "(string \<times> node) list" and dirname :: string
    and n :: node and l :: bool and sub :: "(string \<times> node) list"
  assume "map_of es dirname = Some n" and "n = Dir l sub"
  then have "size (Dir l sub) < Suc (size_list (size_prod (\<lambda>_. 0) size) es)"
    using map_of_size_less [of es dirname n] by simp
  then show "((followlinks, prune, os_path_join walk_top dirname, sub),
      (followlinks, prune, walk_top, es))
      \<in> measure (\<lambda>(f, p, t, es). size_list (size_prod (\<lambda>_. 0) size) es)"
    by simp
qed

declare os_walk.simps [simp del]

subsection \<open>\<^verbatim>\<open>record_artifacts_as_dict\<close>\<close>

fun combinations2 :: "'a list \<Rightarrow> ('a \<times> 'a) list" where
  \<comment> \<open>\<^verbatim>\<open>itertools.combinations(xs, 2)\<close>\<close>
  "combinations2 [] = []"
| "combinations2 (x # xs) = map (Pair x) xs @ combinations2 xs"

fun check_prefixes :: "(string \<times> string) list \<Rightarrow> error option" where
  \<comment> \<open>the loop over the pairs of strip prefixes\<close>
  "check_prefixes [] = None"
| "check_prefixes ((prefix_one, prefix_two) # rest) =
     (if startswith prefix_one prefix_two \<or> startswith prefix_two prefix_one
      then Some (PrefixError_substring prefix_one prefix_two)
      else check_prefixes rest)"

definition walk_prune :: "ext \<Rightarrow> string list \<Rightarrow> string \<Rightarrow> string list \<Rightarrow> string list" where
  \<comment> \<open>what the body of the loop over \<^verbatim>\<open>os.walk\<close> leaves in \<^verbatim>\<open>dirs\<close>\<close>
  "walk_prune x exclude_patterns walk_root dirs =
     (let dirpaths = map (\<lambda>dirname. os_path_normpath (os_path_join walk_root dirname)) dirs;
          dirpaths' = (if exclude_patterns \<noteq> []
                       then apply_exclude_patterns x dirpaths exclude_patterns
                       else dirpaths)
      in map os_path_basename dirpaths')"

definition walk_filepaths ::
  "ext \<Rightarrow> string list \<Rightarrow> world \<Rightarrow> string \<Rightarrow> string list \<Rightarrow> string list"
where
  \<comment> \<open>the normalized paths of the files of one directory, dead links left out, filtered\<close>
  "walk_filepaths x exclude_patterns w walk_root files =
     (let filepaths = filter (os_path_isfile w)
            (map (\<lambda>filename. os_path_normpath (os_path_join walk_root filename)) files)
      in if exclude_patterns \<noteq> []
         then apply_exclude_patterns x filepaths exclude_patterns
         else filepaths)"

fun record_files ::
  "ext \<Rightarrow> bool \<Rightarrow> string list \<Rightarrow> string list \<Rightarrow> artifacts_dict \<Rightarrow> world
     \<Rightarrow> (error + artifacts_dict) \<times> world"
where
  \<comment> \<open>\<^verbatim>\<open>for filepath in filepaths\<close>\<close>
  "record_files x nle lstrip_paths [] d w = (Inr d, w)"
| "record_files x nle lstrip_paths (filepath # rest) d w =
     (case apply_left_strip (replace_backslash filepath) d lstrip_paths of
        Inl e \<Rightarrow> (Inl e, w)
      | Inr k \<Rightarrow>
          (case hash_artifact x filepath [] nle w of
             (Inl e, w') \<Rightarrow> (Inl e, w')
           | (Inr h, w') \<Rightarrow> record_files x nle lstrip_paths rest (d(k \<mapsto> h)) w'))"

fun record_walk ::
  "ext \<Rightarrow> string list \<Rightarrow> bool \<Rightarrow> string list \<Rightarrow> (string \<times> string list) list
     \<Rightarrow> artifacts_dict \<Rightarrow> world \<Rightarrow> (error + artifacts_dict) \<times> world"
where
  \<comment> \<open>\<^verbatim>\<open>for root, dirs, files in os.walk(..)\<close>\<close>
  "record_walk x exclude_patterns nle lstrip_paths [] d w = (Inr d, w)"
| "record_walk x exclude_patterns nle lstrip_paths ((walk_root, files) # rest) d w =
     (case record_files x nle lstrip_paths
             (walk_filepaths x exclude_patterns w walk_root files) d w of
        (Inl e, w') \<Rightarrow> (Inl e, w')
      | (Inr d', w') \<Rightarrow> record_walk x exclude_patterns nle lstrip_paths rest d' w')"

fun record_each ::
  "ext \<Rightarrow> string list \<Rightarrow> bool \<Rightarrow> bool \<Rightarrow> string list \<Rightarrow> string list
     \<Rightarrow> artifacts_dict \<Rightarrow> world \<Rightarrow> (error + artifacts_dict) \<times> world"
where
  \<comment> \<open>\<^verbatim>\<open>for artifact in norm_artifacts\<close>\<close>
  "record_each x exclude_patterns follow_symlink_dirs nle lstrip_paths [] d w = (Inr d, w)"
| "record_each x exclude_patterns follow_symlink_dirs nle lstrip_paths (artifact # rest) d w =
     (if os_path_isfile w artifact then
        (let artifact' = replace_backslash artifact
         in case apply_left_strip artifact' d lstrip_paths of
              Inl e \<Rightarrow> (Inl e, w)
            | Inr k \<Rightarrow>
                (case hash_artifact x artifact' [] nle w of
                   (Inl e, w') \<Rightarrow> (Inl e, w')
                 | (Inr h, w') \<Rightarrow>
                     record_each x exclude_patterns follow_symlink_dirs nle lstrip_paths rest
                       (d(k \<mapsto> h)) w'))
      else
        (case stat w artifact of
           Some (Dir l es) \<Rightarrow>
             (case record_walk x exclude_patterns nle lstrip_paths
                     (os_walk follow_symlink_dirs (walk_prune x exclude_patterns) artifact es)
                     d w of
                (Inl e, w') \<Rightarrow> (Inl e, w')
              | (Inr d', w') \<Rightarrow>
                  record_each x exclude_patterns follow_symlink_dirs nle lstrip_paths rest d' w')
         | _ \<Rightarrow> record_each x exclude_patterns follow_symlink_dirs nle lstrip_paths rest d w))"

definition effective_base_path :: "ext \<Rightarrow> string option \<Rightarrow> string option" where
  \<comment> \<open>the passed base path, or else the setting\<close>
  "effective_base_path x base_path = (if truthy base_path then base_path else ARTIFACT_BASE_PATH x)"

definition effective_exclude_patterns :: "ext \<Rightarrow> string list \<Rightarrow> string list" where
  \<comment> \<open>the passed patterns, or else the setting\<close>
  "effective_exclude_patterns x exclude_patterns =
     (if exclude_patterns \<noteq> [] then exclude_patterns else ARTIFACT_EXCLUDE_PATTERNS x)"

definition enter_base_path :: "string option \<Rightarrow> world \<Rightarrow> error + world" where
  \<comment> \<open>\<^verbatim>\<open>if base_path: ... os.chdir(base_path)\<close>, any failure turned into a ValueError\<close>
  "enter_base_path base_path w =
     (case base_path of
        None \<Rightarrow> Inr w
      | Some b \<Rightarrow>
          if b = [] then Inr w
          else (case os_chdir b w of
                  Inl e \<Rightarrow> Inl (ValueError_base_path b)
                | Inr w' \<Rightarrow> Inr w'))"

definition scan_artifacts ::
  "ext \<Rightarrow> string list \<Rightarrow> string list \<Rightarrow> bool \<Rightarrow> bool \<Rightarrow> string list
     \<Rightarrow> world \<Rightarrow> (error + artifacts_dict) \<times> world"
where
  \<comment> \<open>\<^verbatim>\<open>record_artifacts_as_dict\<close> from "Normalize passed paths" to the end of the loop
      over the artifacts\<close>
  "scan_artifacts x artifacts exclude_patterns follow_symlink_dirs normalize_line_endings
       lstrip_paths w =
     (let norm_artifacts = map os_path_normpath artifacts;
          pats = effective_exclude_patterns x exclude_patterns
      in if pats \<noteq> [] \<and> \<not> NAMES_SCHEMA x pats then (Inl FormatError, w)
         else
           (let norm_artifacts' =
                  (if pats \<noteq> [] then apply_exclude_patterns x norm_artifacts pats
                   else norm_artifacts)
            in (case (if lstrip_paths \<noteq> [] then check_prefixes (combinations2 lstrip_paths)
                      else None) of
                  Some e \<Rightarrow> (Inl e, w)
                | None \<Rightarrow>
                    record_each x pats follow_symlink_dirs normalize_line_endings
                      lstrip_paths norm_artifacts' Map.empty w)))"

definition record_artifacts_as_dict ::
  "ext \<Rightarrow> string list \<Rightarrow> string list \<Rightarrow> string option \<Rightarrow> bool \<Rightarrow> bool \<Rightarrow> string list
     \<Rightarrow> world \<Rightarrow> (error + artifacts_dict) \<times> world"
where
  "record_artifacts_as_dict x artifacts exclude_patterns base_path follow_symlink_dirs
       normalize_line_endings lstrip_paths w =
     (if artifacts = [] then (Inr Map.empty, w)
      else
        (let base = effective_base_path x base_path;
             original_cwd = cwd w
         in (case enter_base_path base w of
               Inl e \<Rightarrow> (Inl e, w)
             | Inr w1 \<Rightarrow>
                 (case scan_artifacts x artifacts exclude_patterns follow_symlink_dirs
                         normalize_line_endings lstrip_paths w1 of
                    (Inl e, w2) \<Rightarrow> (Inl e, w2)
                  | (Inr d, w2) \<Rightarrow>
                      (if truthy base then
                         (case os_chdir original_cwd w2 of
                            Inl e \<Rightarrow> (Inl e, w2)
                          | Inr w3 \<Rightarrow> (Inr d, w3))
                       else (Inr d, w2))))))"


subsection \<open>Running the command\<close>

text \<open>
  The child process, as the supervising process sees it. \<open>polls\<close> are the turns of the
  loop \<^verbatim>\<open>while proc.poll() is None\<close> at which the child is found running, each with the
  clock read in that turn and with the bytes that the child has appended to its two
  output files since the read before; after the last of them the child has exited with
  \<open>returncode\<close>, having written \<open>tail_out\<close> and \<open>tail_err\<close> in between. A child that is
  killed has no later turns, whatever the list says. The clock is a real number.

  Without the recording of the streams the child runs under \<^verbatim>\<open>subprocess.run\<close> of the
  Python library, whose loop in \<^verbatim>\<open>Popen._wait\<close> finds the child running at the same
  turns. Before that loop the library reads the clock when \<^verbatim>\<open>communicate\<close> sets its end
  time, when it computes the time that remains for \<^verbatim>\<open>wait\<close>, and when \<^verbatim>\<open>_wait\<close> sets an
  end time of its own.
\<close>

record poll =
  now :: real
  wrote_out :: string
  wrote_err :: string

record child =
  spawns :: bool
    \<comment> \<open>whether the command can be started at all\<close>
  started :: real
    \<comment> \<open>the clock right after \<^verbatim>\<open>Popen\<close>: \<^verbatim>\<open>proc_start_time\<close> with the streams recorded,
        and else the reading from which \<^verbatim>\<open>communicate\<close> counts its end time\<close>
  clock_remaining :: real
    \<comment> \<open>the clock when \<^verbatim>\<open>communicate\<close> computes the time that remains for \<^verbatim>\<open>wait\<close>\<close>
  clock_wait :: real
    \<comment> \<open>the clock when \<^verbatim>\<open>_wait\<close> sets its own end time\<close>
  polls :: "poll list"
  tail_out :: string
  tail_err :: string
  returncode :: int
  stdout_name :: string
  stderr_name :: string
    \<comment> \<open>the names that \<^verbatim>\<open>tempfile.mkstemp\<close> hands out\<close>
  root_after :: node
    \<comment> \<open>the file tree as the command leaves it\<close>

definition DEFAULT_BUFFER_SIZE :: nat where
  \<comment> \<open>\<^verbatim>\<open>io.DEFAULT_BUFFER_SIZE\<close>\<close>
  "DEFAULT_BUFFER_SIZE = 8192"

text \<open>
  \<^verbatim>\<open>read(n)\<close> of a file opened with \<^verbatim>\<open>io.open(name, "r")\<close>, as the Python library does it
  (\<^verbatim>\<open>TextIOWrapper.read\<close>): the characters decoded earlier and not yet returned come
  first; while fewer than \<open>n\<close> characters are found, a chunk of bytes is taken from the
  file, decoded, its line ends CR LF and CR replaced by LF, until the file has no more
  bytes. A chunk has 8192 bytes, or more when the last chunk had more bytes
  than characters. A carriage return that ends a chunk is kept back until the next
  character is seen or the end of the file is met. The quotient of bytes and characters,
  a floating-point number in the library, is taken exactly here.
\<close>

definition CHUNK_SIZE :: nat where
  \<comment> \<open>\<^verbatim>\<open>TextIOWrapper._CHUNK_SIZE\<close>\<close>
  "CHUNK_SIZE = 8192"

record reader =
  unread :: string
    \<comment> \<open>the bytes of the file beyond the reader's position\<close>
  held :: string
    \<comment> \<open>the bytes of an unfinished character that the decoder keeps\<close>
  pendingcr :: bool
    \<comment> \<open>a carriage return that ended the last chunk is kept back\<close>
  decoded_chars :: string
    \<comment> \<open>decoded and not yet returned\<close>
  last_chunk :: "nat \<times> nat"
    \<comment> \<open>the bytes and the characters of the last chunk\<close>

definition open_reader :: reader where
  \<comment> \<open>\<^verbatim>\<open>io.open(name, "r")\<close> of the file that \<^verbatim>\<open>mkstemp\<close> has made\<close>
  "open_reader = \<lparr>unread = [], held = [], pendingcr = False, decoded_chars = [],
                   last_chunk = (0, 0)\<rparr>"

fun translate_newlines :: "string \<Rightarrow> string" where
  \<comment> \<open>universal newlines: CR LF and CR (character 0x0D) become LF (character 0x0A)\<close>
  "translate_newlines [] = []"
| "translate_newlines [c] = [if c = CHR 0x0D then CHR 0x0A else c]"
| "translate_newlines (c # d # cs) =
     (if c = CHR 0x0D
      then CHR 0x0A # (if d = CHR 0x0A then translate_newlines cs
                       else translate_newlines (d # cs))
      else c # translate_newlines (d # cs))"

definition newline_decode :: "bool \<Rightarrow> string \<Rightarrow> bool \<Rightarrow> string \<times> bool" where
  \<comment> \<open>\<^verbatim>\<open>IncrementalNewlineDecoder.decode\<close> on the decoded characters of a chunk: the kept
      carriage return goes in front, one at the end is kept back unless the file ends\<close>
  "newline_decode pending output final =
     (let prefixed = pending \<and> (final \<or> output \<noteq> []);
          out1 = (if prefixed then CHR 0x0D # output else output);
          pending1 = (if prefixed then False else pending)
      in if \<not> final \<and> out1 \<noteq> [] \<and> last out1 = CHR 0x0D
         then (translate_newlines (butlast out1), True)
         else (translate_newlines out1, pending1))"

definition chunk_size :: "reader \<Rightarrow> nat \<Rightarrow> nat" where
  \<comment> \<open>\<^verbatim>\<open>max(chunk_size, max(b2cratio, 1.0) * size_hint)\<close>, where \<^verbatim>\<open>b2cratio\<close> is the
      quotient of the bytes and the characters of the last chunk, and 0 without characters\<close>
  "chunk_size r size_hint =
     max CHUNK_SIZE
       (case last_chunk r of
          (nbytes, nchars) \<Rightarrow>
            if nchars = 0 \<or> nbytes \<le> nchars then size_hint
            else (nbytes * size_hint) div nchars)"

function read_chunks :: "codec \<Rightarrow> nat \<Rightarrow> reader \<Rightarrow> string \<Rightarrow> error + string \<times> reader" where
  \<comment> \<open>\<^verbatim>\<open>while remaining > 0\<close>: read a chunk, stop at the end of the file\<close>
  "read_chunks dec remaining r result =
     (if remaining = 0 then Inr (result, r)
      else
        (let chunk = take (chunk_size r remaining) (unread r);
             eof = (chunk = [])
         in (case dec (held r @ chunk) eof of
               None \<Rightarrow> Inl UnicodeDecodeError
             | Some (output, kept) \<Rightarrow>
                 (let chars = fst (newline_decode (pendingcr r) output eof);
                      r' = \<lparr>unread = drop (length chunk) (unread r), held = kept,
                            pendingcr = snd (newline_decode (pendingcr r) output eof),
                            decoded_chars = drop remaining chars,
                            last_chunk = (length chunk, length chars)\<rparr>
                  in if eof \<and> chars = [] then Inr (result, r')
                     else read_chunks dec (remaining - length chars) r'
                            (result @ take remaining chars)))))"
  by pat_completeness auto
termination
proof (relation "measure (\<lambda>(dec, remaining, r, result). length (unread r) + remaining)")
  show "wf (measure (\<lambda>(dec, remaining, r, result). length (unread r) + remaining))"
    by simp
next
  fix dec :: codec and remaining :: nat and r :: reader and result chunk :: string
    and eof :: bool and decoded kept chars :: string and r' :: reader
  assume pos: "remaining \<noteq> 0"
    and chunk: "chunk = take (chunk_size r remaining) (unread r)"
    and eof: "eof = (chunk = [])"
    and chars: "chars = fst (newline_decode (pendingcr r) decoded eof)"
    and r': "r' = \<lparr>unread = drop (length chunk) (unread r), held = kept,
                  pendingcr = snd (newline_decode (pendingcr r) decoded eof),
                  decoded_chars = drop remaining chars,
                  last_chunk = (length chunk, length chars)\<rparr>"
    and more: "\<not> (eof \<and> chars = [])"
  have big: "0 < chunk_size r remaining"
    by (simp add: chunk_size_def CHUNK_SIZE_def max_def)
  show "((dec, remaining - length chars, r', result @ take remaining chars),
         (dec, remaining, r, result))
        \<in> measure (\<lambda>(dec, remaining, r, result). length (unread r) + remaining)"
  proof (cases eof)
    case True
    with more have "chars \<noteq> []" by simp
    then have "0 < length chars" by simp
    with pos True eof r' show ?thesis by simp
  next
    case False
    with eof have "chunk \<noteq> []" by simp
    then have "0 < length chunk" by simp
    moreover from chunk have "length chunk \<le> length (unread r)" by simp
    ultimately have "length (unread r) - length chunk < length (unread r)" by arith
    then have "length (unread r') + (remaining - length chars) < length (unread r) + remaining"
      using r' by simp
    then show ?thesis by simp
  qed
qed

definition TextIOWrapper_read :: "codec \<Rightarrow> nat \<Rightarrow> reader \<Rightarrow> error + string \<times> reader" where
  \<comment> \<open>\<^verbatim>\<open>reader.read(n)\<close>\<close>
  "TextIOWrapper_read dec n r =
     (let result = take n (decoded_chars r)
      in read_chunks dec (n - length result) (r\<lparr>decoded_chars := drop n (decoded_chars r)\<rparr>)
           result)"

record streams =
  stdout_reader :: reader
  stderr_reader :: reader
    \<comment> \<open>the readers of the two temporary files\<close>
  std_out :: string
  std_err :: string
    \<comment> \<open>\<^verbatim>\<open>_std["out"]\<close> and \<^verbatim>\<open>_std["err"]\<close>\<close>

definition duplicate_streams :: "streams \<Rightarrow> world \<Rightarrow> (error + streams) \<times> world" where
  \<comment> \<open>\<^verbatim>\<open>_duplicate_streams()\<close>: one \<^verbatim>\<open>read(io.DEFAULT_BUFFER_SIZE)\<close> of each file, echoed
      and appended; a read that fails raises before anything is echoed. The parent's own
      streams take every text that was decoded: they have the encoding of the locale too\<close>
  "duplicate_streams s w =
     (case TextIOWrapper_read (encoding w) DEFAULT_BUFFER_SIZE (stdout_reader s) of
        Inl e \<Rightarrow> (Inl e, w)
      | Inr (stdout_part, reader_out) \<Rightarrow>
          (case TextIOWrapper_read (encoding w) DEFAULT_BUFFER_SIZE (stderr_reader s) of
             Inl e \<Rightarrow> (Inl e, w)
           | Inr (stderr_part, reader_err) \<Rightarrow>
               (Inr (s\<lparr>stdout_reader := reader_out, stderr_reader := reader_err,
                       std_out := std_out s @ stdout_part,
                       std_err := std_err s @ stderr_part\<rparr>),
                w\<lparr>sys_stdout := sys_stdout w @ stdout_part,
                  sys_stderr := sys_stderr w @ stderr_part\<rparr>)))"

definition child_writes :: "string \<Rightarrow> string \<Rightarrow> streams \<Rightarrow> streams" where
  \<comment> \<open>the child appends to its two files\<close>
  "child_writes out err s =
     s\<lparr>stdout_reader := (stdout_reader s)\<lparr>unread := unread (stdout_reader s) @ out\<rparr>,
       stderr_reader := (stderr_reader s)\<lparr>unread := unread (stderr_reader s) @ err\<rparr>\<rparr>"

fun poll_loop ::
  "string list \<Rightarrow> real option \<Rightarrow> real \<Rightarrow> poll list \<Rightarrow> streams \<Rightarrow> world
     \<Rightarrow> (error + streams) \<times> world"
where
  \<comment> \<open>\<^verbatim>\<open>while proc.poll() is None\<close>: the child is killed when the timeout has passed, and
      not when a read raises\<close>
  "poll_loop cmd timeout proc_start_time [] s w = (Inr s, w)"
| "poll_loop cmd timeout proc_start_time (p # rest) s w =
     (case timeout of
        None \<Rightarrow>
          (case duplicate_streams (child_writes (wrote_out p) (wrote_err p) s) w of
             (Inl e, w') \<Rightarrow> (Inl e, w')
           | (Inr s', w') \<Rightarrow> poll_loop cmd timeout proc_start_time rest s' w')
      | Some t \<Rightarrow>
          if now p > proc_start_time + t
          then (Inl (TimeoutExpired cmd t), w\<lparr>killed := Suc (killed w)\<rparr>)
          else (case duplicate_streams (child_writes (wrote_out p) (wrote_err p) s) w of
                  (Inl e, w') \<Rightarrow> (Inl e, w')
                | (Inr s', w') \<Rightarrow> poll_loop cmd timeout proc_start_time rest s' w'))"

definition supervise ::
  "child \<Rightarrow> string list \<Rightarrow> real option \<Rightarrow> world \<Rightarrow> (error + int \<times> string \<times> string) \<times> world"
where
  \<comment> \<open>the \<^verbatim>\<open>try\<close> block of \<^verbatim>\<open>_subprocess_run_duplicate_streams\<close>\<close>
  "supervise c cmd timeout w =
     (if \<not> spawns c then (Inl OSError, w)
      else
        (let w1 = w\<lparr>launched := launched w @ [cmd], root := root_after c\<rparr>;
             s0 = \<lparr>stdout_reader = open_reader, stderr_reader = open_reader,
                   std_out = [], std_err = []\<rparr>
         in (case poll_loop cmd timeout (started c) (polls c) s0 w1 of
               (Inl e, w2) \<Rightarrow> (Inl e, w2)
             | (Inr s, w2) \<Rightarrow>
                 (case duplicate_streams (child_writes (tail_out c) (tail_err c) s) w2 of
                    (Inl e, w3) \<Rightarrow> (Inl e, w3)
                  | (Inr s', w3) \<Rightarrow> (Inr (returncode c, std_out s', std_err s'), w3)))))"

definition subprocess_run_duplicate_streams ::
  "child \<Rightarrow> string list \<Rightarrow> real option \<Rightarrow> world \<Rightarrow> (error + int \<times> string \<times> string) \<times> world"
where
  \<comment> \<open>\<^verbatim>\<open>_subprocess_run_duplicate_streams(cmd, timeout)\<close>: two temporary files, the
      \<^verbatim>\<open>try\<close> block, and the \<^verbatim>\<open>finally\<close> that removes the files\<close>
  "subprocess_run_duplicate_streams c cmd timeout w =
     (let w0 = w\<lparr>tmpfiles := tmpfiles w @ [stdout_name c, stderr_name c]\<rparr>
      in (case supervise c cmd timeout w0 of
            (r, w1) \<Rightarrow>
              (r, w1\<lparr>tmpfiles := removeAll (stderr_name c)
                                   (removeAll (stdout_name c) (tmpfiles w1))\<rparr>)))"

definition subprocess_run ::
  "child \<Rightarrow> string list \<Rightarrow> real \<Rightarrow> world \<Rightarrow> (error + int) \<times> world"
where
  \<comment> \<open>\<^verbatim>\<open>subprocess.run(cmd, check=False, timeout=t, stdout=DEVNULL, stderr=DEVNULL)\<close> as
      the Python library does it: \<^verbatim>\<open>communicate\<close> sets the end time, calls \<^verbatim>\<open>wait\<close>
      with the time that remains, and \<^verbatim>\<open>_wait\<close> raises \<^verbatim>\<open>TimeoutExpired\<close> with the
      timeout it was called with when it finds the child running and no time left;
      \<^verbatim>\<open>run\<close> then kills the child\<close>
  "subprocess_run c cmd t w =
     (if \<not> spawns c then (Inl OSError, w)
      else
        (let w1 = w\<lparr>launched := launched w @ [cmd], root := root_after c\<rparr>;
             endtime = started c + t;
             remaining = endtime - clock_remaining c;
             wait_endtime = clock_wait c + remaining
         in if list_ex (\<lambda>p. wait_endtime - now p \<le> 0) (polls c)
            then (Inl (TimeoutExpired cmd remaining), w1\<lparr>killed := Suc (killed w1)\<rparr>)
            else (Inr (returncode c), w1)))"

definition execute_link ::
  "ext \<Rightarrow> child \<Rightarrow> string list \<Rightarrow> bool \<Rightarrow> world \<Rightarrow> (error + (string \<rightharpoonup> byproduct)) \<times> world"
where
  "execute_link x c link_cmd_args record_streams w =
     (if record_streams then
        (case subprocess_run_duplicate_streams c link_cmd_args
                (Some (LINK_CMD_EXEC_TIMEOUT x)) w of
           (Inl e, w') \<Rightarrow> (Inl e, w')
         | (Inr (return_code, stdout_str, stderr_str), w') \<Rightarrow>
             (Inr [''stdout'' \<mapsto> Text stdout_str, ''stderr'' \<mapsto> Text stderr_str,
                   ''return-value'' \<mapsto> Code return_code], w'))
      else
        (case subprocess_run c link_cmd_args (LINK_CMD_EXEC_TIMEOUT x) w of
           (Inl e, w') \<Rightarrow> (Inl e, w')
         | (Inr return_code, w') \<Rightarrow>
             (Inr [''stdout'' \<mapsto> Text [], ''stderr'' \<mapsto> Text [],
                   ''return-value'' \<mapsto> Code return_code], w')))"


subsection \<open>\<^verbatim>\<open>in_toto_run\<close> and \<^verbatim>\<open>in_toto_mock\<close>\<close>

definition check_match_signing_key :: "ext \<Rightarrow> key \<Rightarrow> bool" where
  \<comment> \<open>\<^verbatim>\<open>_check_match_signing_key\<close> passes: the key has the schema and a private part\<close>
  "check_match_signing_key x signing_key =
     (KEY_SCHEMA x signing_key \<and> truthy (keyval_private signing_key))"

definition formats_ok ::
  "ext \<Rightarrow> key option \<Rightarrow> string option \<Rightarrow> string list \<Rightarrow> string option \<Rightarrow> string option
     \<Rightarrow> bool"
where
  \<comment> \<open>the checks "to fail early" that the three entry points share; each raises
      \<^verbatim>\<open>FormatError\<close>, and only for an argument that is truthy\<close>
  "formats_ok x signing_key gpg_keyid exclude_patterns base_path metadata_directory =
     ((case signing_key of None \<Rightarrow> True | Some k \<Rightarrow> check_match_signing_key x k)
      \<and> (case gpg_keyid of None \<Rightarrow> True | Some i \<Rightarrow> i = [] \<or> KEYID_SCHEMA x i)
      \<and> (exclude_patterns = [] \<or> NAMES_SCHEMA x exclude_patterns)
      \<and> (case base_path of None \<Rightarrow> True | Some b \<Rightarrow> b = [] \<or> PATH_SCHEMA x b)
      \<and> (case metadata_directory of None \<Rightarrow> True | Some m \<Rightarrow> m = [] \<or> PATH_SCHEMA x m))"

definition run_command ::
  "ext \<Rightarrow> child \<Rightarrow> string list \<Rightarrow> bool \<Rightarrow> world \<Rightarrow> (error + (string \<rightharpoonup> byproduct)) \<times> world"
where
  \<comment> \<open>\<^verbatim>\<open>if link_cmd_args: ... else: byproducts = {}\<close>\<close>
  "run_command x c link_cmd_args record_streams w =
     (if link_cmd_args \<noteq> [] then
        (if \<not> LIST_OF_ANY_STRING_SCHEMA x link_cmd_args then (Inl FormatError, w)
         else execute_link x c link_cmd_args record_streams w)
      else (Inr Map.empty, w))"

definition workdir_environment :: "bool \<Rightarrow> world \<Rightarrow> (string \<rightharpoonup> string)" where
  "workdir_environment record_environment w =
     (if record_environment then [''workdir'' \<mapsto> replace_backslash (cwd w)] else Map.empty)"

definition new_metadata :: "bool \<Rightarrow> bool \<Rightarrow> link \<Rightarrow> metadata" where
  \<comment> \<open>\<^verbatim>\<open>Envelope.from_signable(link)\<close> or \<^verbatim>\<open>Metablock(signed=link, compact_json=..)\<close>\<close>
  "new_metadata use_dsse compact_json l =
     (if use_dsse then Envelope l [] else Metablock l [] compact_json)"

definition choose_signer ::
  "key option \<Rightarrow> string option \<Rightarrow> bool \<Rightarrow> string option \<Rightarrow> signer option"
where
  \<comment> \<open>the signing key before the gpg key id before the default gpg key\<close>
  "choose_signer signing_key gpg_keyid gpg_use_default gpg_home =
     (case signing_key of
        Some k \<Rightarrow> Some (SSlibSigner k)
      | None \<Rightarrow>
          if truthy gpg_keyid then Some (GPGSigner gpg_keyid gpg_home)
          else if gpg_use_default then Some (GPGSigner None gpg_home)
          else None)"

definition in_directory :: "string option \<Rightarrow> string \<Rightarrow> string" where
  \<comment> \<open>\<^verbatim>\<open>if metadata_directory is not None: filename = os.path.join(..)\<close>\<close>
  "in_directory metadata_directory filename =
     (case metadata_directory of None \<Rightarrow> filename | Some m \<Rightarrow> os_path_join m filename)"

definition sign_and_dump ::
  "ext \<Rightarrow> metadata \<Rightarrow> signer option \<Rightarrow> string \<Rightarrow> string option \<Rightarrow> world
     \<Rightarrow> (error + metadata) \<times> world"
where
  \<comment> \<open>\<^verbatim>\<open>if signer: ... link_metadata.dump(filename)\<close> and \<^verbatim>\<open>return link_metadata\<close>\<close>
  "sign_and_dump x link_metadata chosen step_name metadata_directory w =
     (case chosen of
        None \<Rightarrow> (Inr link_metadata, w)
      | Some sg \<Rightarrow>
          (case create_signature x link_metadata sg of
             Inl e \<Rightarrow> (Inl e, w)
           | Inr sig \<Rightarrow>
               (let signed = add_signature link_metadata sig;
                    filename = in_directory metadata_directory
                                 (FILENAME_FORMAT step_name (sig_keyid sig))
                in (case dump signed filename w of
                      Inl e \<Rightarrow> (Inl e, w)
                    | Inr w' \<Rightarrow> (Inr signed, w')))))"

definition in_toto_run ::
  "ext \<Rightarrow> child \<Rightarrow> string \<Rightarrow> string list \<Rightarrow> string list \<Rightarrow> string list \<Rightarrow> bool
     \<Rightarrow> key option \<Rightarrow> string option \<Rightarrow> bool \<Rightarrow> string option \<Rightarrow> string list
     \<Rightarrow> string option \<Rightarrow> bool \<Rightarrow> bool \<Rightarrow> bool \<Rightarrow> string list \<Rightarrow> string option \<Rightarrow> bool
     \<Rightarrow> world \<Rightarrow> (error + metadata) \<times> world"
where
  "in_toto_run x c step_name material_list product_list link_cmd_args record_streams
       signing_key gpg_keyid gpg_use_default gpg_home exclude_patterns base_path
       compact_json record_environment normalize_line_endings lstrip_paths
       metadata_directory use_dsse w =
     (if \<not> formats_ok x signing_key gpg_keyid exclude_patterns base_path metadata_directory
      then (Inl FormatError, w)
      else
        (case record_artifacts_as_dict x material_list exclude_patterns base_path True
                normalize_line_endings lstrip_paths w of
           (Inl e, w1) \<Rightarrow> (Inl e, w1)
         | (Inr materials_dict, w1) \<Rightarrow>
             (case run_command x c link_cmd_args record_streams w1 of
                (Inl e, w2) \<Rightarrow> (Inl e, w2)
              | (Inr bp, w2) \<Rightarrow>
                  (if product_list \<noteq> [] \<and> \<not> PATHS_SCHEMA x product_list
                   then (Inl FormatError, w2)
                   else
                     (case record_artifacts_as_dict x product_list exclude_patterns
                             base_path True normalize_line_endings lstrip_paths w2 of
                        (Inl e, w3) \<Rightarrow> (Inl e, w3)
                      | (Inr products_dict, w3) \<Rightarrow>
                          sign_and_dump x
                            (new_metadata use_dsse compact_json
                               \<lparr>name = step_name, materials = materials_dict,
                                products = products_dict, command = link_cmd_args,
                                byproducts = bp,
                                environment = workdir_environment record_environment w3\<rparr>)
                            (choose_signer signing_key gpg_keyid gpg_use_default gpg_home)
                            step_name metadata_directory w3)))))"

definition in_toto_mock ::
  "ext \<Rightarrow> child \<Rightarrow> string \<Rightarrow> string list \<Rightarrow> bool \<Rightarrow> world \<Rightarrow> (error + metadata) \<times> world"
where
  "in_toto_mock x c step_name link_cmd_args use_dsse w =
     (case in_toto_run x c step_name [''.''] [''.''] link_cmd_args True None None False None
             [] None False False False [] None use_dsse w of
        (Inl e, w1) \<Rightarrow> (Inl e, w1)
      | (Inr link_metadata, w1) \<Rightarrow>
          (case dump link_metadata (FILENAME_FORMAT_SHORT step_name) w1 of
             Inl e \<Rightarrow> (Inl e, w1)
           | Inr w2 \<Rightarrow> (Inr link_metadata, w2)))"

subsection \<open>\<^verbatim>\<open>in_toto_record_start\<close> and \<^verbatim>\<open>in_toto_record_stop\<close>\<close>

definition no_key_argument :: "key option \<Rightarrow> string option \<Rightarrow> bool \<Rightarrow> bool" where
  \<comment> \<open>\<^verbatim>\<open>not signing_key and not gpg_keyid and not gpg_use_default\<close>\<close>
  "no_key_argument signing_key gpg_keyid gpg_use_default =
     (signing_key = None \<and> \<not> truthy gpg_keyid \<and> \<not> gpg_use_default)"

definition start_signer :: "key option \<Rightarrow> string option \<Rightarrow> string option \<Rightarrow> signer" where
  \<comment> \<open>as \<open>choose_signer\<close>, with the default gpg key as the last branch\<close>
  "start_signer signing_key gpg_keyid gpg_home =
     (case signing_key of
        Some k \<Rightarrow> SSlibSigner k
      | None \<Rightarrow> if truthy gpg_keyid then GPGSigner gpg_keyid gpg_home
                else GPGSigner None gpg_home)"

definition in_toto_record_start ::
  "ext \<Rightarrow> string \<Rightarrow> string list \<Rightarrow> key option \<Rightarrow> string option \<Rightarrow> bool \<Rightarrow> string option
     \<Rightarrow> string list \<Rightarrow> string option \<Rightarrow> bool \<Rightarrow> bool \<Rightarrow> string list \<Rightarrow> bool
     \<Rightarrow> world \<Rightarrow> (error + unit) \<times> world"
where
  "in_toto_record_start x step_name material_list signing_key gpg_keyid gpg_use_default
       gpg_home exclude_patterns base_path record_environment normalize_line_endings
       lstrip_paths use_dsse w =
     (if no_key_argument signing_key gpg_keyid gpg_use_default then (Inl ValueError_no_key, w)
      else if \<not> formats_ok x signing_key gpg_keyid exclude_patterns base_path None
      then (Inl FormatError, w)
      else
        (case record_artifacts_as_dict x material_list exclude_patterns base_path True
                normalize_line_endings lstrip_paths w of
           (Inl e, w1) \<Rightarrow> (Inl e, w1)
         | (Inr materials_dict, w1) \<Rightarrow>
             (let link_metadata = new_metadata use_dsse False
                    \<lparr>name = step_name, materials = materials_dict, products = Map.empty,
                     command = [], byproducts = Map.empty,
                     environment = workdir_environment record_environment w1\<rparr>
              in (case create_signature x link_metadata
                         (start_signer signing_key gpg_keyid gpg_home) of
                    Inl e \<Rightarrow> (Inl e, w1)
                  | Inr sig \<Rightarrow>
                      (case dump (add_signature link_metadata sig)
                              (UNFINISHED_FILENAME_FORMAT step_name (sig_keyid sig)) w1 of
                         Inl e \<Rightarrow> (Inl e, w1)
                       | Inr w2 \<Rightarrow> (Inr (), w2))))))"

definition locate_unfinished :: "ext \<Rightarrow> string \<Rightarrow> key option \<Rightarrow> error + string" where
  \<comment> \<open>"Load preliminary link file": the name from the signing key's id, or else the
      one file that the glob finds\<close>
  "locate_unfinished x step_name signing_key =
     (case signing_key of
        Some k \<Rightarrow> Inr (UNFINISHED_FILENAME_FORMAT step_name (keyid k))
      | None \<Rightarrow>
          (let unfinished_fn_list = glob_glob x (UNFINISHED_FILENAME_FORMAT_GLOB step_name ''*'')
           in (case unfinished_fn_list of
                 [] \<Rightarrow> Inl (LinkNotFoundError [])
               | fn # others \<Rightarrow>
                   if length unfinished_fn_list > 1
                   then Inl (LinkNotFoundError unfinished_fn_list)
                   else Inr fn)))"

definition verification_key ::
  "ext \<Rightarrow> metadata \<Rightarrow> key option \<Rightarrow> string option \<Rightarrow> string option \<Rightarrow> error + string \<times> key"
where
  \<comment> \<open>"The file must have been signed by the same key": the key id and the key to verify
      with, for each of the three kinds of key argument\<close>
  "verification_key x link_metadata signing_key gpg_keyid gpg_home =
     (case signing_key of
        Some k \<Rightarrow> Inr (keyid k, k)
      | None \<Rightarrow>
          (case (if truthy gpg_keyid then gpg_keyid else None) of
             Some i \<Rightarrow>
               (case export_pubkey x i gpg_home of
                  Inl e \<Rightarrow> Inl e
                | Inr gpg_pubkey \<Rightarrow> Inr (keyid gpg_pubkey, gpg_pubkey))
           | None \<Rightarrow>
               (case signatures link_metadata of
                  [] \<Rightarrow> Inl IndexError
                | sig # others \<Rightarrow>
                    (case export_pubkey x (sig_keyid sig) gpg_home of
                       Inl e \<Rightarrow> Inl e
                     | Inr gpg_pubkey \<Rightarrow> Inr (sig_keyid sig, gpg_pubkey)))))"

fun rewrap :: "metadata \<Rightarrow> link \<Rightarrow> metadata" where
  \<comment> \<open>\<^verbatim>\<open>Metablock(signed=link)\<close> if the loaded metadata is a Metablock, else a new envelope\<close>
  "rewrap (Metablock old sigs cj) l = Metablock l [] False"
| "rewrap (Envelope old sigs) l = Envelope l []"

definition stop_signer :: "key option \<Rightarrow> string \<Rightarrow> string option \<Rightarrow> signer" where
  "stop_signer signing_key kid gpg_home =
     (case signing_key of
        Some k \<Rightarrow> SSlibSigner k
      | None \<Rightarrow> GPGSigner (Some kid) gpg_home)"

definition finish_link ::
  "ext \<Rightarrow> string \<Rightarrow> string \<Rightarrow> metadata \<Rightarrow> string \<Rightarrow> key option \<Rightarrow> string option
     \<Rightarrow> string option \<Rightarrow> artifacts_dict \<Rightarrow> world \<Rightarrow> (error + unit) \<times> world"
where
  \<comment> \<open>\<^verbatim>\<open>in_toto_record_stop\<close> after the products are recorded: wrap, sign, dump, and
      remove the unfinished file\<close>
  "finish_link x step_name unfinished_fn loaded kid signing_key gpg_home metadata_directory
       products_dict w =
     (let link_metadata = rewrap loaded ((get_payload loaded)\<lparr>products := products_dict\<rparr>)
      in (case create_signature x link_metadata (stop_signer signing_key kid gpg_home) of
            Inl e \<Rightarrow> (Inl e, w)
          | Inr sig \<Rightarrow>
              (case dump (add_signature link_metadata sig)
                      (in_directory metadata_directory (FILENAME_FORMAT step_name kid)) w of
                 Inl e \<Rightarrow> (Inl e, w)
               | Inr w1 \<Rightarrow>
                   (case os_remove unfinished_fn w1 of
                      Inl e \<Rightarrow> (Inl e, w1)
                    | Inr w2 \<Rightarrow> (Inr (), w2)))))"

definition in_toto_record_stop ::
  "ext \<Rightarrow> string \<Rightarrow> string list \<Rightarrow> key option \<Rightarrow> string option \<Rightarrow> bool \<Rightarrow> string option
     \<Rightarrow> string list \<Rightarrow> string option \<Rightarrow> bool \<Rightarrow> string list \<Rightarrow> string option
     \<Rightarrow> world \<Rightarrow> (error + unit) \<times> world"
where
  "in_toto_record_stop x step_name product_list signing_key gpg_keyid gpg_use_default
       gpg_home exclude_patterns base_path normalize_line_endings lstrip_paths
       metadata_directory w =
     (if no_key_argument signing_key gpg_keyid gpg_use_default then (Inl ValueError_no_key, w)
      else if \<not> formats_ok x signing_key gpg_keyid exclude_patterns base_path
                  metadata_directory
      then (Inl FormatError, w)
      else
        (case locate_unfinished x step_name signing_key of
           Inl e \<Rightarrow> (Inl e, w)
         | Inr unfinished_fn \<Rightarrow>
             (case Metadata_load unfinished_fn w of
                Inl e \<Rightarrow> (Inl e, w)
              | Inr link_metadata \<Rightarrow>
                  (case verification_key x link_metadata signing_key gpg_keyid gpg_home of
                     Inl e \<Rightarrow> (Inl e, w)
                   | Inr (kid, vkey) \<Rightarrow>
                       if \<not> verify_signature x link_metadata vkey
                       then (Inl SignatureVerificationError, w)
                       else
                         (case record_artifacts_as_dict x product_list exclude_patterns
                                 base_path True normalize_line_endings lstrip_paths w of
                            (Inl e, w1) \<Rightarrow> (Inl e, w1)
                          | (Inr products_dict, w1) \<Rightarrow>
                              finish_link x step_name unfinished_fn link_metadata kid
                                signing_key gpg_home metadata_directory products_dict w1)))))"


subsection \<open>Inputs for worked examples\<close>

text \<open>
  Collaborators that accept every format, exclude nothing, take the content of a file for
  its digest, sign with the signer's key id and verify a signature by its key id; a
  directory \<^verbatim>\<open>/w\<close> with the files \<^verbatim>\<open>x\<close> and \<^verbatim>\<open>sub/x\<close>.
\<close>

fun signer_keyid :: "signer \<Rightarrow> string" where
  "signer_keyid (SSlibSigner k) = keyid k"
| "signer_keyid (GPGSigner (Some i) h) = i"
| "signer_keyid (GPGSigner None h) = ''default0''"

definition ext_example :: ext where
  "ext_example =
     \<lparr>NAMES_SCHEMA = (\<lambda>ns. True), PATHS_SCHEMA = (\<lambda>ps. True),
      LIST_OF_ANY_STRING_SCHEMA = (\<lambda>ss. True), HASHALGORITHMS_SCHEMA = (\<lambda>as. True),
      HASHDICT_SCHEMA = (\<lambda>h. True), PATH_SCHEMA = (\<lambda>p. True), KEYID_SCHEMA = (\<lambda>k. True),
      KEY_SCHEMA = (\<lambda>k. True),
      gitwildmatch = (\<lambda>pats p. False),
      digest_filename = (\<lambda>algorithm nle content. Inr content),
      create_signature = (\<lambda>md sg. Inr \<lparr>sig_keyid = signer_keyid sg, sig_value = ''sig''\<rparr>),
      verify_signature = (\<lambda>md k. list_ex (\<lambda>s. sig_keyid s = keyid k) (signatures md)),
      export_pubkey = (\<lambda>i home. Inr \<lparr>keyid = i, keytype = ''rsa'', scheme = ''pgp'',
                                     keyval_public = ''pub'', keyval_private = None\<rparr>),
      glob_glob = (\<lambda>pat. []),
      ARTIFACT_BASE_PATH = None,
      ARTIFACT_EXCLUDE_PATTERNS = [],
      LINK_CMD_EXEC_TIMEOUT = 10\<rparr>"

definition ascii_codec :: codec where
  \<comment> \<open>the encoding \<^verbatim>\<open>ascii\<close>: a byte below 128 is its character, any other byte is no
      text, and no byte is ever kept\<close>
  "ascii_codec bytes final =
     (if list_all (\<lambda>b. \<not> digit7 b) bytes then Some (bytes, []) else None)"

definition root_example :: node where
  "root_example =
     Dir False [(''w'', Dir False [(''x'', File ''one''),
                                  (''sub'', Dir False [(''x'', File ''two'')])])]"

definition world_example :: world where
  "world_example =
     \<lparr>cwd = ''/w'', root = root_example, links = Map.empty, writable = (\<lambda>p. True),
      digested = [], launched = [], killed = 0, tmpfiles = [],
      sys_stdout = [], sys_stderr = [], encoding = ascii_codec\<rparr>"


text \<open>
  Four children: one that writes 8193 characters to its standard output and exits before
  the supervisor looks at it for the first time; one that is found running eleven
  seconds after its start, having written a line; one that is found running eleven seconds
  after its start as well, having written the byte 0xFF, which is no text in the encodings
  \<^verbatim>\<open>ascii\<close> and \<^verbatim>\<open>utf-8\<close>; and one that writes two lines, the first ended by CR LF,
  and exits after a second.
\<close>

definition child_burst :: child where
  "child_burst =
     \<lparr>spawns = True, started = 0, clock_remaining = 0, clock_wait = 0, polls = [],
      tail_out = replicate 8193 CHR ''a'', tail_err = [], returncode = 0,
      stdout_name = ''/tmp/tmp_out'', stderr_name = ''/tmp/tmp_err'',
      root_after = root_example\<rparr>"

definition child_slow :: child where
  "child_slow =
     \<lparr>spawns = True, started = 0, clock_remaining = 1 / 4, clock_wait = 1 / 2,
      polls = [\<lparr>now = 1, wrote_out = ''working'', wrote_err = []\<rparr>,
               \<lparr>now = 11, wrote_out = [], wrote_err = []\<rparr>],
      tail_out = ''done'', tail_err = [], returncode = 0,
      stdout_name = ''/tmp/tmp_out'', stderr_name = ''/tmp/tmp_err'',
      root_after = root_example\<rparr>"

definition child_garbled :: child where
  "child_garbled =
     \<lparr>spawns = True, started = 0, clock_remaining = 1 / 4, clock_wait = 1 / 2,
      polls = [\<lparr>now = 1, wrote_out = [CHR 0xFF], wrote_err = []\<rparr>,
               \<lparr>now = 11, wrote_out = [], wrote_err = []\<rparr>],
      tail_out = [], tail_err = [], returncode = 0,
      stdout_name = ''/tmp/tmp_out'', stderr_name = ''/tmp/tmp_err'',
      root_after = root_example\<rparr>"

definition child_quick :: child where
  "child_quick =
     \<lparr>spawns = True, started = 0, clock_remaining = 1 / 4, clock_wait = 1 / 2,
      polls = [\<lparr>now = 1, wrote_out = [CHR ''o'', CHR ''k'', CHR 0x0D, CHR 0x0A],
                wrote_err = []\<rparr>],
      tail_out = ''bye'', tail_err = ''warn'', returncode = 0,
      stdout_name = ''/tmp/tmp_out'', stderr_name = ''/tmp/tmp_err'',
      root_after = root_example\<rparr>"

text \<open>
  Two signing keys, and a disk with two unfinished link files of the step \<^verbatim>\<open>build\<close>, both
  signed with the first key: one under the name that the first key gives, one under the
  name that the second key gives.
\<close>

definition key_one :: key where
  "key_one = \<lparr>keyid = ''11111111aaaa'', keytype = ''ed25519'', scheme = ''ed25519'',
               keyval_public = ''pub1'', keyval_private = Some ''priv1''\<rparr>"

definition key_two :: key where
  "key_two = \<lparr>keyid = ''22222222bbbb'', keytype = ''ed25519'', scheme = ''ed25519'',
               keyval_public = ''pub2'', keyval_private = Some ''priv2''\<rparr>"

definition started_metadata :: metadata where
  "started_metadata =
     Metablock \<lparr>name = ''build'', materials = Map.empty, products = Map.empty,
                command = [], byproducts = Map.empty, environment = Map.empty\<rparr>
       [\<lparr>sig_keyid = ''11111111aaaa'', sig_value = ''sig''\<rparr>] False"

definition world_started :: world where
  "world_started =
     world_example\<lparr>links := [''/w/.build.11111111.link-unfinished'' \<mapsto> started_metadata,
                              ''/w/.build.22222222.link-unfinished'' \<mapsto> started_metadata]\<rparr>"

subsection \<open>Predicates of the statements\<close>

text \<open>
  \<open>digests_under w w'\<close>: the world \<open>w'\<close> is \<open>w\<close> but for more entries in the log of
  digested files, each a path joined to the working directory of \<open>w\<close>.
\<close>

definition digests_under :: "world \<Rightarrow> world \<Rightarrow> bool" where
  "digests_under w w' =
     (\<exists>ds. w' = w\<lparr>digested := digested w @ ds\<rparr>
           \<and> (\<forall>p \<in> set ds. \<exists>f. p = os_path_join (cwd w) f))"

text \<open>
  \<open>decodes dec B\<close>: every sequence of bytes of \<open>B\<close> is text in the encoding, and none of
  them is kept back as the start of a character (as the bytes below 128 in the encodings
  \<^verbatim>\<open>ascii\<close>, \<^verbatim>\<open>latin-1\<close> and \<^verbatim>\<open>utf-8\<close>). \<open>bytes_written c\<close> are the bytes that the child
  writes to its two files. \<open>overdue t c record_streams p\<close>: in the turn \<open>p\<close> the supervisor
  finds that the time is up, by the test of the loop in
  \<^verbatim>\<open>_subprocess_run_duplicate_streams\<close> or by that of \<^verbatim>\<open>subprocess.run\<close>.
\<close>

definition decodes :: "codec \<Rightarrow> char set \<Rightarrow> bool" where
  "decodes dec B =
     (\<forall>bytes final. set bytes \<subseteq> B \<longrightarrow> (\<exists>chars. dec bytes final = Some (chars, [])))"

definition bytes_written :: "child \<Rightarrow> char set" where
  "bytes_written c =
     set (tail_out c) \<union> set (tail_err c)
     \<union> (\<Union>p \<in> set (polls c). set (wrote_out p) \<union> set (wrote_err p))"

definition overdue :: "real \<Rightarrow> child \<Rightarrow> bool \<Rightarrow> poll \<Rightarrow> bool" where
  "overdue t c record_streams p =
     (if record_streams then now p > started c + t
      else clock_wait c + (started c + t - clock_remaining c) - now p \<le> 0)"

text \<open>
  The names a directory entry can have: not empty, without a slash, and neither of the
  two entries \<^verbatim>\<open>.\<close> and \<^verbatim>\<open>..\<close> that every directory holds. \<open>names_valid\<close> below asks
  it of every entry of a tree.
\<close>

definition valid_name :: "string \<Rightarrow> bool" where
  "valid_name n = (n \<noteq> [] \<and> CHR ''/'' \<notin> set n \<and> n \<noteq> ''.'' \<and> n \<noteq> ''..'')"

text \<open>
  The directory that lists the path \<open>p\<close>, written as the walk writes it: the directory
  part of \<open>p\<close>, and \<^verbatim>\<open>.\<close> for a path with no directory part.
\<close>

definition parent_dir :: "string \<Rightarrow> string" where
  "parent_dir p = (let h = os_path_dirname p in if h = [] then ''.'' else h)"

text \<open>
  The components that \<open>os_path_normpath\<close> keeps of a path, the text it puts in front of a
  name joined to that path, and the shape of the kept components: every \<^verbatim>\<open>..\<close> stands in
  front, and only in a relative path.
\<close>

definition norm_comps :: "nat \<Rightarrow> string \<Rightarrow> string list" where
  "norm_comps ini s = foldl (normpath_step ini) [] (split_slash s)"

definition join_prefix :: "string \<Rightarrow> string" where
  "join_prefix r =
     (let ini = initial_slashes r; cs = norm_comps ini r
      in if cs = [] then replicate ini CHR ''/''
         else replicate ini CHR ''/'' @ join_slash cs @ ''/'')"

fun dotdots_in_front :: "nat \<Rightarrow> string list \<Rightarrow> bool" where
  "dotdots_in_front ini [] = True"
| "dotdots_in_front ini (c # cs) =
     (if c = ''..'' then ini = 0 \<and> dotdots_in_front ini cs else ''..'' \<notin> set cs)"

fun names_valid :: "node \<Rightarrow> bool" where
  "names_valid (Dir l es) = (\<forall>e \<in> set es. valid_name (fst e) \<and> names_valid (snd e))"
| "names_valid (File v) = True"
| "names_valid Other = True"

text \<open>
  A path is excluded when the list of patterns in force is not empty and the matcher
  built from it matches the path, as in \<open>apply_exclude_patterns\<close>. \<open>key_of\<close> is the key
  under which a recorded path is stored, as in \<open>record_files\<close>.
\<close>

definition excluded :: "ext \<Rightarrow> string list \<Rightarrow> string \<Rightarrow> bool" where
  "excluded x pats p = (pats \<noteq> [] \<and> gitwildmatch x pats p)"

definition key_of :: "string list \<Rightarrow> string \<Rightarrow> string" where
  "key_of lstrip_paths p =
     (if lstrip_paths = [] then replace_backslash p
      else left_strip (replace_backslash p) lstrip_paths)"

text \<open>
  A matcher for the counterexample to claim C4. Modelled on the documentation of
  \<^verbatim>\<open>pathspec\<close> for the gitwildmatch patterns that are a path with a leading slash: such a
  pattern matches that path, counted from the root of the paths given, and everything
  beneath it; with a leading \<^verbatim>\<open>!\<close> it takes back what an earlier pattern matched; the
  last pattern that matches a path decides. Patterns of any other form match nothing here.
\<close>

fun anchored_hit :: "string \<Rightarrow> string \<Rightarrow> bool" where
  "anchored_hit [] p = False"
| "anchored_hit (c # q) p = (c = CHR ''/'' \<and> (p = q \<or> prefix (q @ ''/'') p))"

fun anchored_decide :: "string \<Rightarrow> bool \<Rightarrow> string \<Rightarrow> bool" where
  "anchored_decide p inc [] = inc"
| "anchored_decide p inc (c # q) =
     (if c = CHR ''!'' then (if anchored_hit q p then False else inc)
      else (if anchored_hit (c # q) p then True else inc))"

definition anchored_match :: "string list \<Rightarrow> string \<Rightarrow> bool" where
  "anchored_match pats p = foldl (anchored_decide p) False pats"

definition ext_anchored :: ext where
  "ext_anchored = ext_example\<lparr>gitwildmatch := anchored_match\<rparr>"

section \<open>Properties\<close>

subsection \<open>Unfolding the model on concrete inputs\<close>

lemmas path_defs = startswith_def endswith_def replace_backslash_def os_path_join_def
  os_path_basename_def os_path_dirname_def initial_slashes_def normpath_step_def
  os_path_normpath_def path_comps_def
lemmas world_defs = truthy_def stat_def os_path_isfile_def os_path_isdir_def os_chdir_def
  Metadata_load_def dump_def os_remove_def
lemmas scan_defs = hash_artifact_def apply_exclude_patterns_def apply_left_strip_def
  dir_names_def nondir_names_def walk_prune_def walk_filepaths_def effective_base_path_def
  effective_exclude_patterns_def enter_base_path_def scan_artifacts_def
  record_artifacts_as_dict_def
lemmas example_defs = ext_example_def root_example_def world_example_def


subsection \<open>Prefix stripping\<close>

lemma left_strip_cases:
  "((\<forall>p \<in> set ps. \<not> startswith path p) \<and> left_strip path ps = path)
   \<or> (\<exists>i < length ps. startswith path (ps ! i) \<and> (\<forall>j < i. \<not> startswith path (ps ! j))
         \<and> ps ! i @ left_strip path ps = path)"
proof (induction ps)
  case Nil
  then show ?case by simp
next
  case (Cons p ps)
  show ?case
  proof (cases "startswith path p")
    case True
    then have "p @ left_strip path (p # ps) = path"
      by (auto simp: startswith_def prefix_def)
    with True have "0 < length (p # ps) \<and> startswith path ((p # ps) ! 0)
        \<and> (\<forall>j < 0. \<not> startswith path ((p # ps) ! j))
        \<and> (p # ps) ! 0 @ left_strip path (p # ps) = path"
      by simp
    then show ?thesis by blast
  next
    case False
    from Cons.IH show ?thesis
    proof
      assume "(\<forall>q \<in> set ps. \<not> startswith path q) \<and> left_strip path ps = path"
      with False show ?thesis by simp
    next
      assume "\<exists>i < length ps. startswith path (ps ! i) \<and> (\<forall>j < i. \<not> startswith path (ps ! j))
         \<and> ps ! i @ left_strip path ps = path"
      then obtain i where i: "i < length ps" "startswith path (ps ! i)"
        "\<forall>j < i. \<not> startswith path (ps ! j)" "ps ! i @ left_strip path ps = path"
        by blast
      have "\<forall>j < Suc i. \<not> startswith path ((p # ps) ! j)"
        using False i(3) by (auto simp: less_Suc_eq_0_disj)
      with i False have "Suc i < length (p # ps) \<and> startswith path ((p # ps) ! Suc i)
        \<and> (\<forall>j < Suc i. \<not> startswith path ((p # ps) ! j))
        \<and> (p # ps) ! Suc i @ left_strip path (p # ps) = path"
        by simp
      then show ?thesis by blast
    qed
  qed
qed

text \<open>
  Claim C7. When strip prefixes are given, \<^verbatim>\<open>_apply_left_strip\<close> removes from the path
  the first prefix of the list, in list order, that the path starts with (and nothing when
  none matches), and raises \<^verbatim>\<open>PrefixError\<close> when the resulting key is already in the
  map being built, returning the key otherwise. The scenario: the files \<^verbatim>\<open>x\<close> and
  \<^verbatim>\<open>sub/x\<close> with the strip prefix \<^verbatim>\<open>sub/\<close> both give the key \<^verbatim>\<open>x\<close>, and
  \<^verbatim>\<open>record_artifacts_as_dict\<close> raises the error.
\<close>

theorem apply_left_strip_first_prefix:
  "(lstrip_paths \<noteq> [] \<longrightarrow>
      (\<exists>k. apply_left_strip path d lstrip_paths
              = (if k \<in> dom d then Inl (PrefixError_key k) else Inr k)
          \<and> (((\<forall>p \<in> set lstrip_paths. \<not> startswith path p) \<and> k = path)
             \<or> (\<exists>i < length lstrip_paths. startswith path (lstrip_paths ! i)
                   \<and> (\<forall>j < i. \<not> startswith path (lstrip_paths ! j))
                   \<and> lstrip_paths ! i @ k = path))))
   \<and> fst (record_artifacts_as_dict ext_example [''x'', ''sub/x''] [] None False False
            [''sub/''] world_example) = Inl (PrefixError_key ''x'')"
proof (intro conjI impI)
  assume ne: "lstrip_paths \<noteq> []"
  let ?k = "left_strip path lstrip_paths"
  have "apply_left_strip path d lstrip_paths
          = (if ?k \<in> dom d then Inl (PrefixError_key ?k) else Inr ?k)"
    using ne by (auto simp: apply_left_strip_def Let_def)
  with left_strip_cases [of lstrip_paths path]
  show "\<exists>k. apply_left_strip path d lstrip_paths
              = (if k \<in> dom d then Inl (PrefixError_key k) else Inr k)
          \<and> (((\<forall>p \<in> set lstrip_paths. \<not> startswith path p) \<and> k = path)
             \<or> (\<exists>i < length lstrip_paths. startswith path (lstrip_paths ! i)
                   \<and> (\<forall>j < i. \<not> startswith path (lstrip_paths ! j))
                   \<and> lstrip_paths ! i @ k = path))"
    by blast
next
  show "fst (record_artifacts_as_dict ext_example [''x'', ''sub/x''] [] None False False
            [''sub/''] world_example) = Inl (PrefixError_key ''x'')"
    by (simp add: example_defs path_defs world_defs scan_defs Let_def)
qed

theorem apply_left_strip_first_prefix_witness:
  "[''sub/''] \<noteq> [] \<and>
   apply_left_strip ''sub/x'' [''x'' \<mapsto> Map.empty] [''sub/''] = Inl (PrefixError_key ''x'')"
proof -
  have "apply_left_strip ''sub/x'' [''x'' \<mapsto> Map.empty] [''sub/''] = Inl (PrefixError_key ''x'')"
    by (simp add: apply_left_strip_def startswith_def)
  with apply_left_strip_first_prefix [of "[''sub/'']" "''sub/x''" "[''x'' \<mapsto> Map.empty]"]
  show ?thesis by simp
qed

subsection \<open>The check of the strip prefixes\<close>

lemma combinations2_nth:
  "i < j \<Longrightarrow> j < length xs \<Longrightarrow> (xs ! i, xs ! j) \<in> set (combinations2 xs)"
proof (induction xs arbitrary: i j)
  case Nil
  then show ?case by simp
next
  case (Cons y ys)
  from Cons.prems obtain j' where j: "j = Suc j'" by (cases j) auto
  show ?case
  proof (cases i)
    case 0
    with j Cons.prems show ?thesis by auto
  next
    case (Suc i')
    with j Cons.prems Cons.IH [of i' j'] show ?thesis by auto
  qed
qed

lemma check_prefixes_Some:
  "(a, b) \<in> set prs \<Longrightarrow> startswith a b \<or> startswith b a \<Longrightarrow>
   \<exists>a' b'. check_prefixes prs = Some (PrefixError_substring a' b') \<and> (a', b') \<in> set prs
      \<and> (startswith a' b' \<or> startswith b' a')"
  by (induction prs rule: check_prefixes.induct) auto

lemma enter_base_path_digested:
  "enter_base_path base w = Inr w1 \<Longrightarrow> digested w1 = digested w"
  by (auto simp: enter_base_path_def os_chdir_def split: option.splits if_splits sum.splits)

text \<open>
  Claim C6, as stated: every strip-prefix list with two entries of which one is a prefix of
  the other makes \<^verbatim>\<open>record_artifacts_as_dict\<close> raise \<^verbatim>\<open>PrefixError\<close>. With an empty list
  of artifacts the function returns the empty map before it looks at the prefixes.
\<close>

theorem record_artifacts_as_dict_prefix_counterexample:
  "startswith ''sub/dir/'' ''sub/''
   \<and> fst (record_artifacts_as_dict ext_example [] [] None False False
            [''sub/'', ''sub/dir/''] world_example) = Inr Map.empty"
  by (simp add: record_artifacts_as_dict_def startswith_def)

text \<open>
  Claim C6, amended: when the list of artifacts is not empty, the base path (if there is
  one) can be entered and the exclude patterns (if there are any) have the format of a
  list of names, then every strip-prefix list with two entries of which one is a prefix of
  the other makes \<^verbatim>\<open>record_artifacts_as_dict\<close> raise \<^verbatim>\<open>PrefixError\<close> for a pair of
  such entries, and no file has been handed to the digest by then: the world is the one
  that entering the base path left.
\<close>

theorem record_artifacts_as_dict_prefix_check:
  assumes "artifacts \<noteq> []"
    and "i < length lstrip_paths" and "j < length lstrip_paths" and "i \<noteq> j"
    and "startswith (lstrip_paths ! i) (lstrip_paths ! j)"
    and "enter_base_path (effective_base_path x base_path) w = Inr w1"
    and "effective_exclude_patterns x exclude_patterns = []
         \<or> NAMES_SCHEMA x (effective_exclude_patterns x exclude_patterns)"
  shows "\<exists>a b. record_artifacts_as_dict x artifacts exclude_patterns base_path
                 follow_symlink_dirs normalize_line_endings lstrip_paths w
               = (Inl (PrefixError_substring a b), w1)
           \<and> (a, b) \<in> set (combinations2 lstrip_paths)
           \<and> (startswith a b \<or> startswith b a)
           \<and> digested w1 = digested w"
proof -
  have ne: "lstrip_paths \<noteq> []" using assms(2) by auto
  have "\<exists>a b. (a, b) \<in> set (combinations2 lstrip_paths) \<and> (startswith a b \<or> startswith b a)"
  proof (cases "i < j")
    case True
    with assms(3,5) combinations2_nth [of i j lstrip_paths] show ?thesis by blast
  next
    case False
    with assms(4) have "j < i" by simp
    with assms(2,5) combinations2_nth [of j i lstrip_paths] show ?thesis by blast
  qed
  then obtain a b where
    ab: "check_prefixes (combinations2 lstrip_paths) = Some (PrefixError_substring a b)"
      "(a, b) \<in> set (combinations2 lstrip_paths)" "startswith a b \<or> startswith b a"
    using check_prefixes_Some by blast
  have "scan_artifacts x artifacts exclude_patterns follow_symlink_dirs
          normalize_line_endings lstrip_paths w1 = (Inl (PrefixError_substring a b), w1)"
    using ne ab(1) assms(7) by (auto simp: scan_artifacts_def Let_def)
  then have "record_artifacts_as_dict x artifacts exclude_patterns base_path
                 follow_symlink_dirs normalize_line_endings lstrip_paths w
               = (Inl (PrefixError_substring a b), w1)"
    using assms(1,6) by (simp add: record_artifacts_as_dict_def Let_def)
  with ab(2,3) enter_base_path_digested [OF assms(6)] show ?thesis by blast
qed

theorem record_artifacts_as_dict_prefix_check_witness:
  "\<exists>a b. record_artifacts_as_dict ext_example [''x''] [] None False False
            [''sub/'', ''sub/dir/''] world_example
          = (Inl (PrefixError_substring a b), world_example)
        \<and> (a, b) \<in> set (combinations2 [''sub/'', ''sub/dir/''])
        \<and> (startswith a b \<or> startswith b a)
        \<and> digested world_example = digested world_example"
proof -
  have "enter_base_path (effective_base_path ext_example None) world_example = Inr world_example"
    by (simp add: enter_base_path_def effective_base_path_def ext_example_def truthy_def)
  moreover have "effective_exclude_patterns ext_example [] = []"
    by (simp add: effective_exclude_patterns_def ext_example_def)
  moreover have "startswith ([''sub/'', ''sub/dir/''] ! 1) ([''sub/'', ''sub/dir/''] ! 0)"
    by (simp add: startswith_def)
  ultimately show ?thesis
    using record_artifacts_as_dict_prefix_check [of "[''x'']" 1 "[''sub/'', ''sub/dir/'']" 0
        ext_example None world_example world_example "[]" False False]
    by simp
qed

subsection \<open>What a scan changes\<close>

lemma digests_under_refl: "digests_under w w"
  unfolding digests_under_def by (rule exI [of _ "[]"]) simp

lemma digests_under_trans:
  assumes "digests_under w w1" and "digests_under w1 w2"
  shows "digests_under w w2"
proof -
  from assms(1) obtain ds where ds: "w1 = w\<lparr>digested := digested w @ ds\<rparr>"
    "\<forall>p \<in> set ds. \<exists>f. p = os_path_join (cwd w) f"
    unfolding digests_under_def by blast
  from assms(2) obtain es where es: "w2 = w1\<lparr>digested := digested w1 @ es\<rparr>"
    "\<forall>p \<in> set es. \<exists>f. p = os_path_join (cwd w1) f"
    unfolding digests_under_def by blast
  have "w2 = w\<lparr>digested := digested w @ (ds @ es)\<rparr>"
    using ds(1) es(1) by simp
  moreover have "\<forall>p \<in> set (ds @ es). \<exists>f. p = os_path_join (cwd w) f"
    using ds es(2) by auto
  ultimately show ?thesis unfolding digests_under_def by blast
qed

lemma digests_under_step:
  "digests_under w (w\<lparr>digested := digested w @ [os_path_join (cwd w) f]\<rparr>)"
  unfolding digests_under_def by (rule exI [of _ "[os_path_join (cwd w) f]"]) auto

lemma digests_under_cwd: "digests_under w w' \<Longrightarrow> cwd w' = cwd w"
  unfolding digests_under_def by auto

lemma digests_under_links: "digests_under w w' \<Longrightarrow> links w' = links w"
  unfolding digests_under_def by auto

lemma digests_under_stat: "digests_under w w' \<Longrightarrow> stat w' = stat w"
  unfolding digests_under_def by (auto simp: stat_def fun_eq_iff)

lemma digest_each_frame:
  "digest_each x fp nle algs h w = (r, w') \<Longrightarrow> digests_under w w'"
proof (induction algs arbitrary: h w)
  case Nil
  then show ?case by (simp add: digests_under_refl)
next
  case (Cons a algs)
  let ?w1 = "w\<lparr>digested := digested w @ [os_path_join (cwd w) fp]\<rparr>"
  have step: "digests_under w ?w1" by (rule digests_under_step)
  from Cons.prems have "w' = ?w1 \<or> (\<exists>h'. digest_each x fp nle algs h' ?w1 = (r, w'))"
    by (auto simp: Let_def split: option.splits node.splits sum.splits)
  then show ?case
  proof
    assume "w' = ?w1"
    with step show ?thesis by simp
  next
    assume "\<exists>h'. digest_each x fp nle algs h' ?w1 = (r, w')"
    then obtain h' where "digest_each x fp nle algs h' ?w1 = (r, w')" by blast
    then have "digests_under ?w1 w'" by (rule Cons.IH)
    with step show ?thesis by (rule digests_under_trans)
  qed
qed

lemma hash_artifact_frame:
  assumes "hash_artifact x fp algs nle w = (r, w')"
  shows "digests_under w w'"
proof -
  let ?algs = "if algs = [] then [''sha256''] else algs"
  obtain r1 w1 where d: "digest_each x fp nle ?algs Map.empty w = (r1, w1)" by force
  then have f: "digests_under w w1" by (rule digest_each_frame)
  from assms d have "w' = w \<or> w' = w1"
    by (auto simp: hash_artifact_def Let_def simp del: digest_each.simps
        split: if_splits sum.splits)
  with f show ?thesis by (auto simp: digests_under_refl)
qed

lemma record_files_frame:
  "record_files x nle ls fps d w = (r, w') \<Longrightarrow> digests_under w w'"
proof (induction fps arbitrary: d w)
  case Nil
  then show ?case by (simp add: digests_under_refl)
next
  case (Cons fp fps)
  show ?case
  proof (cases "apply_left_strip (replace_backslash fp) d ls")
    case (Inl e)
    with Cons.prems show ?thesis by (simp add: digests_under_refl)
  next
    case (Inr k)
    obtain hr w1 where h: "hash_artifact x fp [] nle w = (hr, w1)" by force
    then have f1: "digests_under w w1" by (rule hash_artifact_frame)
    show ?thesis
    proof (cases hr)
      case (Inl e)
      with Cons.prems Inr h f1 show ?thesis by simp
    next
      case (Inr hd)
      with Cons.prems \<open>apply_left_strip (replace_backslash fp) d ls = Inr k\<close> h
      have "record_files x nle ls fps (d(k \<mapsto> hd)) w1 = (r, w')" by simp
      then have "digests_under w1 w'" by (rule Cons.IH)
      with f1 show ?thesis by (rule digests_under_trans)
    qed
  qed
qed

lemma record_walk_frame:
  "record_walk x pats nle ls lv d w = (r, w') \<Longrightarrow> digests_under w w'"
proof (induction lv arbitrary: d w)
  case Nil
  then show ?case by (simp add: digests_under_refl)
next
  case (Cons a lv)
  obtain wr files where a: "a = (wr, files)" by force
  obtain r1 w1 where f: "record_files x nle ls (walk_filepaths x pats w wr files) d w = (r1, w1)"
    by force
  then have f1: "digests_under w w1" by (rule record_files_frame)
  show ?case
  proof (cases r1)
    case (Inl e)
    with Cons.prems a f f1 show ?thesis by simp
  next
    case (Inr d1)
    with Cons.prems a f have "record_walk x pats nle ls lv d1 w1 = (r, w')" by simp
    then have "digests_under w1 w'" by (rule Cons.IH)
    with f1 show ?thesis by (rule digests_under_trans)
  qed
qed

lemma record_each_frame:
  "record_each x pats fl nle ls arts d w = (r, w') \<Longrightarrow> digests_under w w'"
proof (induction arts arbitrary: d w)
  case Nil
  then show ?case by (simp add: digests_under_refl)
next
  case (Cons a arts)
  show ?case
  proof (cases "os_path_isfile w a")
    case True
    show ?thesis
    proof (cases "apply_left_strip (replace_backslash a) d ls")
      case (Inl e)
      with Cons.prems True show ?thesis by (simp add: digests_under_refl)
    next
      case (Inr k)
      obtain hr w1 where h: "hash_artifact x (replace_backslash a) [] nle w = (hr, w1)" by force
      then have f1: "digests_under w w1" by (rule hash_artifact_frame)
      show ?thesis
      proof (cases hr)
        case (Inl e)
        with Cons.prems True Inr h f1 show ?thesis by simp
      next
        case (Inr hd)
        with Cons.prems True \<open>apply_left_strip (replace_backslash a) d ls = Inr k\<close> h
        have "record_each x pats fl nle ls arts (d(k \<mapsto> hd)) w1 = (r, w')" by simp
        then have "digests_under w1 w'" by (rule Cons.IH)
        with f1 show ?thesis by (rule digests_under_trans)
      qed
    qed
  next
    case False
    show ?thesis
    proof (cases "\<exists>l es. stat w a = Some (Dir l es)")
      case True
      then obtain l es where st: "stat w a = Some (Dir l es)" by blast
      obtain r1 w1 where
        f: "record_walk x pats nle ls (os_walk fl (walk_prune x pats) a es) d w = (r1, w1)"
        by force
      then have f1: "digests_under w w1" by (rule record_walk_frame)
      show ?thesis
      proof (cases r1)
        case (Inl e)
        with Cons.prems False st f f1 show ?thesis by simp
      next
        case (Inr d1)
        with Cons.prems False st f have "record_each x pats fl nle ls arts d1 w1 = (r, w')"
          by simp
        then have "digests_under w1 w'" by (rule Cons.IH)
        with f1 show ?thesis by (rule digests_under_trans)
      qed
    next
      case nodir: False
      with Cons.prems False have "record_each x pats fl nle ls arts d w = (r, w')"
        by (auto split: option.splits node.splits)
      then show ?thesis by (rule Cons.IH)
    qed
  qed
qed

lemma scan_artifacts_frame:
  "scan_artifacts x arts ep fl nle ls w = (r, w') \<Longrightarrow> digests_under w w'"
  by (auto simp: scan_artifacts_def Let_def digests_under_refl
      split: if_splits option.splits dest: record_each_frame)

subsection \<open>The working directory\<close>

text \<open>
  Claim C9. Called with a base path (passed, or from the settings) and a non-empty list
  of artifacts, \<^verbatim>\<open>record_artifacts_as_dict\<close> enters the base path, and every file that it
  hands to the digest is named from there. On a successful return the working directory
  is the original one again (the original one is named by an absolute path, as
  \<^verbatim>\<open>os.getcwd()\<close> gives it); when an exception ends the scan, the working directory
  stays the base path. When the base path cannot be entered, the \<^verbatim>\<open>ValueError\<close> is
  raised and nothing has changed.
\<close>

theorem record_artifacts_as_dict_cwd:
  assumes "artifacts \<noteq> []"
    and "effective_base_path x base_path = Some b" and "b \<noteq> []"
    and "record_artifacts_as_dict x artifacts exclude_patterns base_path follow_symlink_dirs
           normalize_line_endings lstrip_paths w = (r, w')"
  shows "if os_path_isdir w b
         then (\<exists>ds. digested w' = digested w @ ds
                  \<and> (\<forall>p \<in> set ds. \<exists>f. p = os_path_join (os_path_join (cwd w) b) f))
              \<and> (case r of
                    Inl e \<Rightarrow> cwd w' = os_path_join (cwd w) b
                  | Inr d \<Rightarrow> startswith (cwd w) ''/'' \<longrightarrow> cwd w' = cwd w)
         else r = Inl (ValueError_base_path b) \<and> w' = w"
proof (cases "os_path_isdir w b")
  case False
  then have "enter_base_path (Some b) w = Inl (ValueError_base_path b)"
    using assms(3) by (simp add: enter_base_path_def os_chdir_def)
  with assms(1,2,4) False show ?thesis
    by (simp add: record_artifacts_as_dict_def Let_def)
next
  case True
  let ?w1 = "w\<lparr>cwd := os_path_join (cwd w) b\<rparr>"
  have enter: "enter_base_path (Some b) w = Inr ?w1"
    using True assms(3) by (simp add: enter_base_path_def os_chdir_def)
  have tr: "truthy (Some b)" using assms(3) by (simp add: truthy_def)
  obtain r2 w2 where
    scan: "scan_artifacts x artifacts exclude_patterns follow_symlink_dirs
             normalize_line_endings lstrip_paths ?w1 = (r2, w2)"
    by force
  then have fr: "digests_under ?w1 w2" by (rule scan_artifacts_frame)
  then obtain ds where ds: "w2 = ?w1\<lparr>digested := digested ?w1 @ ds\<rparr>"
    "\<forall>p \<in> set ds. \<exists>f. p = os_path_join (cwd ?w1) f"
    unfolding digests_under_def by blast
  have dig2: "digested w2 = digested w @ ds" using ds(1) by simp
  have cwd2: "cwd w2 = os_path_join (cwd w) b" using ds(1) by simp
  have under: "\<forall>p \<in> set ds. \<exists>f. p = os_path_join (os_path_join (cwd w) b) f"
    using ds(2) by simp
  show ?thesis
  proof (cases r2)
    case (Inl e)
    with assms(1,2,4) enter scan have "r = Inl e" "w' = w2"
      by (simp_all add: record_artifacts_as_dict_def Let_def)
    with True dig2 cwd2 under show ?thesis by auto
  next
    case (Inr d)
    show ?thesis
    proof (cases "os_chdir (cwd w) w2")
      case bk: (Inl e)
      with assms(1,2,4) enter scan Inr tr have "r = Inl e" "w' = w2"
        by (simp_all add: record_artifacts_as_dict_def Let_def)
      with True dig2 cwd2 under show ?thesis by auto
    next
      case bk: (Inr w3)
      with assms(1,2,4) enter scan Inr tr have rw: "r = Inr d" "w' = w3"
        by (simp_all add: record_artifacts_as_dict_def Let_def)
      from bk have w3: "w3 = w2\<lparr>cwd := os_path_join (cwd w2) (cwd w)\<rparr>"
        by (auto simp: os_chdir_def split: if_splits)
      have "startswith (cwd w) ''/'' \<longrightarrow> cwd w3 = cwd w"
        using w3 by (simp add: os_path_join_def)
      moreover have "digested w3 = digested w @ ds" using w3 dig2 by simp
      ultimately show ?thesis using True rw under by auto
    qed
  qed
qed

theorem record_artifacts_as_dict_cwd_witness:
  "os_path_isdir world_example ''sub''
   \<and> startswith (cwd world_example) ''/''
   \<and> (\<exists>d w'. record_artifacts_as_dict ext_example [''x''] [] (Some ''sub'') False False []
               world_example = (Inr d, w')
          \<and> cwd w' = cwd world_example \<and> digested w' = [''/w/sub/x''])
   \<and> (\<exists>w'. record_artifacts_as_dict ext_example [''x'', ''x''] [] (Some ''sub'') False False
               [''sub''] world_example = (Inl (PrefixError_key ''x''), w')
          \<and> cwd w' = ''/w/sub'')"
proof -
  have isdir: "os_path_isdir world_example ''sub''"
    by (simp add: example_defs path_defs world_defs Let_def)
  have eb: "effective_base_path ext_example (Some ''sub'') = Some ''sub''"
    by (simp add: effective_base_path_def truthy_def)
  obtain r1 w1 where
    r1: "record_artifacts_as_dict ext_example [''x''] [] (Some ''sub'') False False []
           world_example = (r1, w1)" by force
  have e1: "fst (record_artifacts_as_dict ext_example [''x''] [] (Some ''sub'') False False []
           world_example) = Inr [''x'' \<mapsto> [''sha256'' \<mapsto> ''two'']]"
    by (simp add: example_defs path_defs world_defs scan_defs Let_def)
  have d1: "digested (snd (record_artifacts_as_dict ext_example [''x''] [] (Some ''sub'') False False []
           world_example)) = [''/w/sub/x'']"
    by (simp add: example_defs path_defs world_defs scan_defs Let_def)
  obtain r2 w2 where
    r2: "record_artifacts_as_dict ext_example [''x'', ''x''] [] (Some ''sub'') False False
           [''sub''] world_example = (r2, w2)" by force
  have e2: "fst (record_artifacts_as_dict ext_example [''x'', ''x''] [] (Some ''sub'') False False
           [''sub''] world_example) = Inl (PrefixError_key ''x'')"
    by (simp add: example_defs path_defs world_defs scan_defs Let_def)
  have abs: "startswith (cwd world_example) ''/''"
    by (simp add: world_example_def startswith_def)
  have c: "cwd world_example = ''/w''" by (simp add: world_example_def)
  from record_artifacts_as_dict_cwd [OF _ eb _ r1] isdir e1 r1 abs
  have "cwd w1 = cwd world_example" by simp
  moreover from record_artifacts_as_dict_cwd [OF _ eb _ r2] isdir e2 r2 c
  have "cwd w2 = ''/w/sub''" by (simp add: os_path_join_def startswith_def endswith_def)
  ultimately show ?thesis using isdir abs r1 e1 d1 r2 e2 by simp
qed

subsection \<open>The supervised command\<close>

lemmas exec_defs = duplicate_streams_def child_writes_def supervise_def
  subprocess_run_duplicate_streams_def subprocess_run_def execute_link_def

declare read_chunks.simps [simp del]

lemma read_chunks_done: "read_chunks dec 0 r result = Inr (result, r)"
  by (simp add: read_chunks.simps)

lemma read_chunks_more:
  "0 < remaining \<Longrightarrow>
   read_chunks dec remaining r result =
     (let chunk = take (chunk_size r remaining) (unread r);
          eof = (chunk = [])
      in (case dec (held r @ chunk) eof of
            None \<Rightarrow> Inl UnicodeDecodeError
          | Some (decoded, kept) \<Rightarrow>
              (let chars = fst (newline_decode (pendingcr r) decoded eof);
                   r' = \<lparr>unread = drop (length chunk) (unread r), held = kept,
                         pendingcr = snd (newline_decode (pendingcr r) decoded eof),
                         decoded_chars = drop remaining chars,
                         last_chunk = (length chunk, length chars)\<rparr>
               in if eof \<and> chars = [] then Inr (result, r')
                  else read_chunks dec (remaining - length chars) r'
                         (result @ take remaining chars))))"
  by (subst read_chunks.simps) simp

lemma translate_newlines_plain:
  "CHR 0x0D \<notin> set s \<Longrightarrow> translate_newlines s = s"
  by (induction s rule: translate_newlines.induct) auto

lemmas reader_defs = TextIOWrapper_read_def open_reader_def chunk_size_def CHUNK_SIZE_def
  newline_decode_def DEFAULT_BUFFER_SIZE_def ascii_codec_def read_chunks_done
  read_chunks_more translate_newlines_plain list_all_iff

text \<open>
  Claim C3 says that the strings returned for a command that ends within the timeout are
  all that the child wrote, the read after the loop taking what is left. That read is
  one \<^verbatim>\<open>read(io.DEFAULT_BUFFER_SIZE)\<close> per stream, as every read in the loop: of a child
  that writes 8193 characters and exits before the first turn of the loop, 8192 characters
  are returned. (The comment above the last read says that it grabs everything written
  since the last read in the loop.)
\<close>

theorem duplicate_streams_truncates:
  "length (tail_out child_burst) = 8193
   \<and> fst (subprocess_run_duplicate_streams child_burst [''burst''] (Some 10) world_example)
       = Inr (0, replicate 8192 CHR ''a'', [])"
  by (simp add: child_burst_def world_example_def exec_defs reader_defs Let_def)

lemma duplicate_streams_world:
  assumes "duplicate_streams s w = (r, w')"
  shows "killed w' = killed w" and "links w' = links w" and "launched w' = launched w"
    and "tmpfiles w' = tmpfiles w" and "encoding w' = encoding w"
  using assms by (auto simp: duplicate_streams_def split: sum.splits prod.splits)

text \<open>
  Where the bytes that the child writes are text, no read fails.
\<close>

lemma read_chunks_decodes:
  assumes "decodes dec B"
  shows "held r = [] \<Longrightarrow> set (unread r) \<subseteq> B \<Longrightarrow>
         \<exists>chars r'. read_chunks dec remaining r result = Inr (chars, r')
                    \<and> held r' = [] \<and> set (unread r') \<subseteq> B"
proof (induction "length (unread r) + remaining" arbitrary: r remaining result
       rule: less_induct)
  case less
  show ?case
  proof (cases "remaining = 0")
    case True
    with less.prems show ?thesis by (simp add: read_chunks_done)
  next
    case False
    define chunk where "chunk = take (chunk_size r remaining) (unread r)"
    define eof where "eof = (chunk = [])"
    have "set chunk \<subseteq> B"
      using less.prems(2) set_take_subset [of "chunk_size r remaining" "unread r"]
      unfolding chunk_def by blast
    with assms obtain decoded where dec: "dec chunk eof = Some (decoded, [])"
      unfolding decodes_def by blast
    define chars where "chars = fst (newline_decode (pendingcr r) decoded eof)"
    define r' where "r' = \<lparr>unread = drop (length chunk) (unread r), held = [],
                         pendingcr = snd (newline_decode (pendingcr r) decoded eof),
                         decoded_chars = drop remaining chars,
                         last_chunk = (length chunk, length chars)\<rparr>"
    have clean: "held r' = []" "set (unread r') \<subseteq> B"
      using less.prems(2) set_drop_subset [of "length chunk" "unread r"]
      unfolding r'_def by auto
    from False have pos: "0 < remaining" by simp
    have step: "read_chunks dec remaining r result =
                  (if eof \<and> chars = [] then Inr (result, r')
                   else read_chunks dec (remaining - length chars) r'
                          (result @ take remaining chars))"
      using dec [unfolded eof_def chunk_def]
      by (simp only: read_chunks_more [OF pos] Let_def chunk_def eof_def chars_def r'_def
          less.prems(1) append_Nil option.case prod.case)
    show ?thesis
    proof (cases "eof \<and> chars = []")
      case True
      with step clean show ?thesis by simp
    next
      case more: False
      have big: "0 < chunk_size r remaining"
        by (simp add: chunk_size_def CHUNK_SIZE_def max_def)
      have "length (unread r') + (remaining - length chars) < length (unread r) + remaining"
      proof (cases eof)
        case True
        with more have "0 < length chars" by simp
        with pos have "remaining - length chars < remaining" by arith
        moreover have "length (unread r') \<le> length (unread r)" unfolding r'_def by simp
        ultimately show ?thesis by arith
      next
        case False
        then have "0 < length chunk" unfolding eof_def by simp
        moreover have "length chunk \<le> length (unread r)" unfolding chunk_def by simp
        ultimately have "length (unread r) - length chunk < length (unread r)" by arith
        then have "length (unread r') < length (unread r)" unfolding r'_def by simp
        then show ?thesis by arith
      qed
      note smaller = this
      from step more
      have eq: "read_chunks dec remaining r result
                  = read_chunks dec (remaining - length chars) r'
                      (result @ take remaining chars)"
        by (simp only: if_False)
      from less.hyps [OF smaller clean, of "result @ take remaining chars"]
      show ?thesis unfolding eq .
    qed
  qed
qed

lemma TextIOWrapper_read_decodes:
  assumes "decodes dec B" and "held r = []" and "set (unread r) \<subseteq> B"
  shows "\<exists>chars r'. TextIOWrapper_read dec n r = Inr (chars, r')
                    \<and> held r' = [] \<and> set (unread r') \<subseteq> B"
  unfolding TextIOWrapper_read_def Let_def
  using assms(2,3) by (intro read_chunks_decodes [OF assms(1)]) simp_all

lemma duplicate_streams_decodes:
  assumes "decodes (encoding w) B"
    and "held (stdout_reader s) = []" and "set (unread (stdout_reader s)) \<subseteq> B"
    and "held (stderr_reader s) = []" and "set (unread (stderr_reader s)) \<subseteq> B"
  shows "\<exists>s' w'. duplicate_streams s w = (Inr s', w')
                 \<and> held (stdout_reader s') = [] \<and> set (unread (stdout_reader s')) \<subseteq> B
                 \<and> held (stderr_reader s') = [] \<and> set (unread (stderr_reader s')) \<subseteq> B"
proof -
  from TextIOWrapper_read_decodes [OF assms(1,2,3)] obtain out ro where
    o: "TextIOWrapper_read (encoding w) DEFAULT_BUFFER_SIZE (stdout_reader s) = Inr (out, ro)"
       "held ro = []" "set (unread ro) \<subseteq> B" by blast
  from TextIOWrapper_read_decodes [OF assms(1,4,5)] obtain err re where
    e: "TextIOWrapper_read (encoding w) DEFAULT_BUFFER_SIZE (stderr_reader s) = Inr (err, re)"
       "held re = []" "set (unread re) \<subseteq> B" by blast
  from o e show ?thesis by (simp add: duplicate_streams_def)
qed

lemma poll_loop_timeout:
  assumes "decodes (encoding w) B"
    and "\<forall>p \<in> set ps. set (wrote_out p) \<subseteq> B \<and> set (wrote_err p) \<subseteq> B"
    and "\<exists>p \<in> set ps. now p > start + t"
    and "held (stdout_reader s) = []" and "set (unread (stdout_reader s)) \<subseteq> B"
    and "held (stderr_reader s) = []" and "set (unread (stderr_reader s)) \<subseteq> B"
  shows "\<exists>w'. poll_loop cmd (Some t) start ps s w = (Inl (TimeoutExpired cmd t), w')
           \<and> killed w' = Suc (killed w) \<and> links w' = links w
           \<and> launched w' = launched w \<and> tmpfiles w' = tmpfiles w"
  using assms
proof (induction ps arbitrary: s w)
  case Nil
  then show ?case by simp
next
  case (Cons p ps)
  show ?case
  proof (cases "now p > start + t")
    case True
    then show ?thesis by simp
  next
    case False
    with Cons.prems(3) have later: "\<exists>q \<in> set ps. now q > start + t" by auto
    let ?s = "child_writes (wrote_out p) (wrote_err p) s"
    from Cons.prems(2) have wr: "set (wrote_out p) \<subseteq> B" "set (wrote_err p) \<subseteq> B" by simp_all
    have "held (stdout_reader ?s) = []" "set (unread (stdout_reader ?s)) \<subseteq> B"
      "held (stderr_reader ?s) = []" "set (unread (stderr_reader ?s)) \<subseteq> B"
      using Cons.prems(4,5,6,7) wr by (simp_all add: child_writes_def)
    from duplicate_streams_decodes [OF Cons.prems(1) this] obtain s1 w1 where
      d: "duplicate_streams ?s w = (Inr s1, w1)"
      and clean: "held (stdout_reader s1) = []" "set (unread (stdout_reader s1)) \<subseteq> B"
        "held (stderr_reader s1) = []" "set (unread (stderr_reader s1)) \<subseteq> B"
      by blast
    note w1 = duplicate_streams_world [OF d]
    from Cons.prems(1) w1(5) have dec1: "decodes (encoding w1) B" by simp
    from Cons.prems(2) have rest: "\<forall>q \<in> set ps. set (wrote_out q) \<subseteq> B \<and> set (wrote_err q) \<subseteq> B"
      by simp
    from Cons.IH [OF dec1 rest later clean] obtain w' where
      r: "poll_loop cmd (Some t) start ps s1 w1 = (Inl (TimeoutExpired cmd t), w')"
         "killed w' = Suc (killed w1)" "links w' = links w1"
         "launched w' = launched w1" "tmpfiles w' = tmpfiles w1"
      by blast
    with False d w1 show ?thesis by simp
  qed
qed

lemma execute_link_timeout:
  assumes "spawns c"
    and "record_streams \<longrightarrow> decodes (encoding w) (bytes_written c)"
    and "\<exists>p \<in> set (polls c). overdue (LINK_CMD_EXEC_TIMEOUT x) c record_streams p"
  shows "\<exists>t w'. execute_link x c cmd record_streams w = (Inl (TimeoutExpired cmd t), w')
            \<and> t = (if record_streams then LINK_CMD_EXEC_TIMEOUT x
                    else started c + LINK_CMD_EXEC_TIMEOUT x - clock_remaining c)
            \<and> killed w' = Suc (killed w) \<and> links w' = links w
            \<and> launched w' = launched w @ [cmd]"
proof (cases record_streams)
  case True
  let ?w0 = "w\<lparr>tmpfiles := tmpfiles w @ [stdout_name c, stderr_name c]\<rparr>"
  let ?w1 = "?w0\<lparr>launched := launched ?w0 @ [cmd], root := root_after c\<rparr>"
  let ?s0 = "\<lparr>stdout_reader = open_reader, stderr_reader = open_reader,
              std_out = [], std_err = []\<rparr>"
  from assms(2) True have dec: "decodes (encoding ?w1) (bytes_written c)" by simp
  have wr: "\<forall>p \<in> set (polls c). set (wrote_out p) \<subseteq> bytes_written c
                                \<and> set (wrote_err p) \<subseteq> bytes_written c"
    unfolding bytes_written_def by auto
  from assms(3) True
  have late: "\<exists>p \<in> set (polls c). now p > started c + LINK_CMD_EXEC_TIMEOUT x"
    by (simp add: overdue_def)
  have "held (stdout_reader ?s0) = []" "set (unread (stdout_reader ?s0)) \<subseteq> bytes_written c"
    "held (stderr_reader ?s0) = []" "set (unread (stderr_reader ?s0)) \<subseteq> bytes_written c"
    by (simp_all add: open_reader_def)
  from poll_loop_timeout [OF dec wr late this, of cmd] obtain w2 where
    r: "poll_loop cmd (Some (LINK_CMD_EXEC_TIMEOUT x)) (started c) (polls c) ?s0 ?w1
          = (Inl (TimeoutExpired cmd (LINK_CMD_EXEC_TIMEOUT x)), w2)"
       "killed w2 = Suc (killed ?w1)" "links w2 = links ?w1" "launched w2 = launched ?w1"
    by blast
  have "supervise c cmd (Some (LINK_CMD_EXEC_TIMEOUT x)) ?w0
          = (Inl (TimeoutExpired cmd (LINK_CMD_EXEC_TIMEOUT x)), w2)"
    using assms(1) r(1) by (simp add: supervise_def Let_def)
  with True r(2,3,4) show ?thesis
    by (simp add: execute_link_def subprocess_run_duplicate_streams_def Let_def)
next
  case False
  with assms(1,3) show ?thesis
    by (simp add: execute_link_def subprocess_run_def Let_def list_ex_iff overdue_def)
qed


subsection \<open>What the steps of \<^verbatim>\<open>in_toto_run\<close> leave alone\<close>

lemma enter_base_path_frame:
  assumes "enter_base_path base w = Inr w1"
  shows "links w1 = links w" and "killed w1 = killed w" and "launched w1 = launched w"
    and "tmpfiles w1 = tmpfiles w" and "writable w1 = writable w" and "root w1 = root w"
    and "encoding w1 = encoding w"
  using assms
  by (auto simp: enter_base_path_def os_chdir_def split: option.splits if_splits sum.splits)

lemma digests_under_frame:
  assumes "digests_under w w'"
  shows "links w' = links w" and "killed w' = killed w" and "launched w' = launched w"
    and "tmpfiles w' = tmpfiles w" and "writable w' = writable w" and "root w' = root w"
    and "encoding w' = encoding w"
  using assms unfolding digests_under_def by auto

lemma os_chdir_frame:
  assumes "os_chdir p w = Inr w1"
  shows "links w1 = links w" and "killed w1 = killed w" and "launched w1 = launched w"
    and "tmpfiles w1 = tmpfiles w" and "writable w1 = writable w" and "root w1 = root w"
    and "encoding w1 = encoding w"
  using assms by (auto simp: os_chdir_def split: if_splits)

lemma record_artifacts_as_dict_frame:
  assumes "record_artifacts_as_dict x arts ep bp fl nle ls w = (r, w')"
  shows "links w' = links w" and "killed w' = killed w" and "launched w' = launched w"
    and "tmpfiles w' = tmpfiles w" and "writable w' = writable w" and "root w' = root w"
    and "encoding w' = encoding w"
proof -
  have "links w' = links w \<and> killed w' = killed w \<and> launched w' = launched w
        \<and> tmpfiles w' = tmpfiles w \<and> writable w' = writable w \<and> root w' = root w
        \<and> encoding w' = encoding w"
  proof (cases "arts = []")
    case True
    with assms show ?thesis by (simp add: record_artifacts_as_dict_def)
  next
    case False
    show ?thesis
    proof (cases "enter_base_path (effective_base_path x bp) w")
      case (Inl e)
      with assms False show ?thesis by (simp add: record_artifacts_as_dict_def Let_def)
    next
      case (Inr w1)
      note f1 = enter_base_path_frame [OF Inr]
      obtain r2 w2 where scan: "scan_artifacts x arts ep fl nle ls w1 = (r2, w2)" by force
      then have "digests_under w1 w2" by (rule scan_artifacts_frame)
      note f2 = digests_under_frame [OF this]
      from assms False Inr scan
      have "w' = w2 \<or> (\<exists>w3. os_chdir (cwd w) w2 = Inr w3 \<and> w' = w3)"
        by (auto simp: record_artifacts_as_dict_def Let_def split: sum.splits if_splits)
      then show ?thesis
      proof
        assume "w' = w2"
        with f1 f2 show ?thesis by simp
      next
        assume "\<exists>w3. os_chdir (cwd w) w2 = Inr w3 \<and> w' = w3"
        then obtain w3 where "os_chdir (cwd w) w2 = Inr w3" and w3: "w' = w3" by blast
        note f3 = os_chdir_frame [OF this(1)]
        from f1 f2 f3 w3 show ?thesis by simp
      qed
    qed
  qed
  then show "links w' = links w" and "killed w' = killed w" and "launched w' = launched w"
    and "tmpfiles w' = tmpfiles w" and "writable w' = writable w" and "root w' = root w"
    and "encoding w' = encoding w"
    by simp_all
qed

lemma poll_loop_links:
  "poll_loop cmd timeout start ps s w = (r, w') \<Longrightarrow> links w' = links w"
proof (induction ps arbitrary: s w)
  case Nil
  then show ?case by simp
next
  case (Cons p ps)
  obtain r1 w1 where
    d: "duplicate_streams (child_writes (wrote_out p) (wrote_err p) s) w = (r1, w1)" by force
  note w1 = duplicate_streams_world [OF d]
  from Cons.prems d w1(2)
  have "links w' = links w
        \<or> (\<exists>s1. r1 = Inr s1 \<and> poll_loop cmd timeout start ps s1 w1 = (r, w'))"
    by (auto split: option.splits if_splits sum.splits)
  with Cons.IH w1(2) show ?case by auto
qed

lemma execute_link_links:
  assumes "execute_link x c cmd record_streams w = (r, w')"
  shows "links w' = links w"
proof (cases record_streams)
  case True
  let ?t = "Some (LINK_CMD_EXEC_TIMEOUT x)"
  let ?w0 = "w\<lparr>tmpfiles := tmpfiles w @ [stdout_name c, stderr_name c]\<rparr>"
  obtain r1 w1 where sv: "supervise c cmd ?t ?w0 = (r1, w1)" by force
  have "links w1 = links w"
  proof (cases "spawns c")
    case False
    with sv show ?thesis by (auto simp: supervise_def)
  next
    case sp: True
    let ?w1 = "?w0\<lparr>launched := launched ?w0 @ [cmd], root := root_after c\<rparr>"
    let ?s0 = "\<lparr>stdout_reader = open_reader, stderr_reader = open_reader,
                std_out = [], std_err = []\<rparr>"
    obtain r2 w2 where pl: "poll_loop cmd ?t (started c) (polls c) ?s0 ?w1 = (r2, w2)" by force
    then have l2: "links w2 = links w" using poll_loop_links by fastforce
    show ?thesis
    proof (cases r2)
      case (Inl e)
      with sv sp pl l2 show ?thesis by (simp add: supervise_def Let_def)
    next
      case (Inr s)
      obtain r3 w3 where
        d: "duplicate_streams (child_writes (tail_out c) (tail_err c) s) w2 = (r3, w3)" by force
      note duplicate_streams_world [OF d]
      with sv sp pl l2 Inr d show ?thesis
        by (auto simp: supervise_def Let_def split: sum.splits)
    qed
  qed
  with assms True sv show ?thesis
    by (auto simp: execute_link_def subprocess_run_duplicate_streams_def Let_def
        split: sum.splits prod.splits)
next
  case False
  with assms show ?thesis
    by (auto simp: execute_link_def subprocess_run_def Let_def split: if_splits)
qed

lemma get_payload_add_signature: "get_payload (add_signature md sig) = get_payload md"
  by (cases md) simp_all

lemma sign_and_dump_frame:
  assumes "sign_and_dump x md chosen step_name metadata_directory w = (r, w')"
  shows "killed w' = killed w" and "launched w' = launched w" and "tmpfiles w' = tmpfiles w"
    and "\<And>md'. r = Inr md' \<Longrightarrow> get_payload md' = get_payload md"
  using assms
  by (auto simp: sign_and_dump_def dump_def Let_def get_payload_add_signature
      split: option.splits sum.splits if_splits)

text \<open>
  When the command is run (the arguments have their formats, the materials are recorded,
  the command is not empty, is a list of strings and can be started), the bytes that the
  child writes are text where the streams are recorded, and the supervisor finds in some
  turn that the time is up, then \<^verbatim>\<open>in_toto_run\<close> kills the child and raises
  \<^verbatim>\<open>TimeoutExpired\<close>, which holds the command and none of the output captured so far; no
  metadata file is written. The timeout in the exception is the configured one where the
  streams are recorded, and else the time that remained when \<^verbatim>\<open>communicate\<close> called
  \<^verbatim>\<open>wait\<close>.
\<close>

lemma in_toto_run_timeout:
  assumes "formats_ok x signing_key gpg_keyid exclude_patterns base_path metadata_directory"
    and "record_artifacts_as_dict x material_list exclude_patterns base_path True
           normalize_line_endings lstrip_paths w = (Inr materials_dict, w1)"
    and "link_cmd_args \<noteq> []" and "LIST_OF_ANY_STRING_SCHEMA x link_cmd_args"
    and "spawns c"
    and "record_streams \<longrightarrow> decodes (encoding w) (bytes_written c)"
    and "\<exists>p \<in> set (polls c). overdue (LINK_CMD_EXEC_TIMEOUT x) c record_streams p"
  shows "\<exists>w'. in_toto_run x c step_name material_list product_list link_cmd_args
                 record_streams signing_key gpg_keyid gpg_use_default gpg_home
                 exclude_patterns base_path compact_json record_environment
                 normalize_line_endings lstrip_paths metadata_directory use_dsse w
               = (Inl (TimeoutExpired link_cmd_args
                         (if record_streams then LINK_CMD_EXEC_TIMEOUT x
                          else started c + LINK_CMD_EXEC_TIMEOUT x - clock_remaining c)), w')
           \<and> killed w' = Suc (killed w) \<and> links w' = links w"
proof -
  note f1 = record_artifacts_as_dict_frame [OF assms(2)]
  from assms(6) f1(7) have dec: "record_streams \<longrightarrow> decodes (encoding w1) (bytes_written c)"
    by simp
  let ?t = "if record_streams then LINK_CMD_EXEC_TIMEOUT x
            else started c + LINK_CMD_EXEC_TIMEOUT x - clock_remaining c"
  from execute_link_timeout [OF assms(5) dec assms(7), of link_cmd_args]
  obtain w2 where
    ex: "execute_link x c link_cmd_args record_streams w1
           = (Inl (TimeoutExpired link_cmd_args ?t), w2)"
        "killed w2 = Suc (killed w1)" "links w2 = links w1"
    by blast
  have "run_command x c link_cmd_args record_streams w1
          = (Inl (TimeoutExpired link_cmd_args ?t), w2)"
    using assms(3,4) ex(1) by (simp add: run_command_def)
  with assms(1,2) have "in_toto_run x c step_name material_list product_list link_cmd_args
                 record_streams signing_key gpg_keyid gpg_use_default gpg_home
                 exclude_patterns base_path compact_json record_environment
                 normalize_line_endings lstrip_paths metadata_directory use_dsse w
               = (Inl (TimeoutExpired link_cmd_args ?t), w2)"
    by (simp add: in_toto_run_def)
  with ex(2,3) f1(1,2) show ?thesis by simp
qed

lemma decodes_ascii_codec: "decodes ascii_codec {b. \<not> digit7 b}"
  by (auto simp: decodes_def ascii_codec_def list_all_iff)

lemma in_toto_run_timeout_example:
  "\<exists>w'. in_toto_run ext_example child_slow ''build'' [] [''x''] [''make''] True
            None None False None [] None False False False [] None False world_example
          = (Inl (TimeoutExpired [''make''] 10), w')
        \<and> killed w' = 1 \<and> links w' = Map.empty"
proof -
  have f: "formats_ok ext_example None None [] None None"
    by (simp add: formats_ok_def)
  have m: "record_artifacts_as_dict ext_example [] [] None True False [] world_example
             = (Inr Map.empty, world_example)"
    by (simp add: record_artifacts_as_dict_def)
  have s: "LIST_OF_ANY_STRING_SCHEMA ext_example [''make'']" "spawns child_slow"
    by (simp_all add: ext_example_def child_slow_def)
  have "bytes_written child_slow \<subseteq> {b. \<not> digit7 b}"
    by (simp add: bytes_written_def child_slow_def)
  with decodes_ascii_codec have d: "True \<longrightarrow> decodes (encoding world_example) (bytes_written child_slow)"
    by (auto simp: decodes_def world_example_def)
  have p: "\<exists>p \<in> set (polls child_slow). overdue (LINK_CMD_EXEC_TIMEOUT ext_example) child_slow True p"
    by (simp add: ext_example_def child_slow_def overdue_def)
  have t: "LINK_CMD_EXEC_TIMEOUT ext_example = 10" by (simp add: ext_example_def)
  have k: "killed world_example = 0" "links world_example = Map.empty"
    by (simp_all add: world_example_def)
  from in_toto_run_timeout [OF f m _ s d p, where step_name = "''build''"
      and product_list = "[''x'']" and gpg_use_default = False and gpg_home = None
      and compact_json = False and record_environment = False and use_dsse = False]
  show ?thesis unfolding t k by simp
qed

lemmas run_defs = formats_ok_def check_match_signing_key_def run_command_def
  workdir_environment_def new_metadata_def choose_signer_def in_directory_def
  sign_and_dump_def in_toto_run_def no_key_argument_def FILENAME_FORMAT_def
  UNFINISHED_FILENAME_FORMAT_def UNFINISHED_FILENAME_FORMAT_GLOB_def keyid_prefix_def

text \<open>
  Claim C2 says that a command that runs beyond the configured timeout is killed and that
  the timeout error is raised. With the streams recorded the two files are read as text
  in every turn of the loop, and a read that meets bytes that are no text raises
  \<^verbatim>\<open>UnicodeDecodeError\<close> there, where nothing kills the child: the child that writes the
  byte 0xFF and is found running eleven seconds after its start, under a timeout of ten
  seconds, is started and not killed, and \<^verbatim>\<open>in_toto_run\<close> raises \<^verbatim>\<open>UnicodeDecodeError\<close>.
  Without the recording of the streams the same child is killed and \<^verbatim>\<open>TimeoutExpired\<close>
  is raised. In neither case a metadata file is written.
\<close>

theorem in_toto_run_undecodable_output:
  "now (last (polls child_garbled)) > started child_garbled + LINK_CMD_EXEC_TIMEOUT ext_example
   \<and> in_toto_run ext_example child_garbled ''build'' [] [] [''make''] True
         None None False None [] None False False False [] None False world_example
       = (Inl UnicodeDecodeError, world_example\<lparr>launched := [[''make'']]\<rparr>)
   \<and> killed (world_example\<lparr>launched := [[''make'']]\<rparr>) = 0
   \<and> in_toto_run ext_example child_garbled ''build'' [] [] [''make''] False
         None None False None [] None False False False [] None False world_example
       = (Inl (TimeoutExpired [''make''] (39 / 4)),
          world_example\<lparr>launched := [[''make'']], killed := 1\<rparr>)"
  by (simp add: child_garbled_def example_defs run_defs exec_defs reader_defs
      record_artifacts_as_dict_def Let_def)

subsection \<open>The empty command\<close>

lemma digest_each_any_strings:
  "digest_each (x\<lparr>LIST_OF_ANY_STRING_SCHEMA := v\<rparr>) fp nle algs h w
     = digest_each x fp nle algs h w"
  by (induction algs arbitrary: h w)
     (auto simp: Let_def split: option.splits node.splits sum.splits)

lemma hash_artifact_any_strings:
  "hash_artifact (x\<lparr>LIST_OF_ANY_STRING_SCHEMA := v\<rparr>) fp algs nle w
     = hash_artifact x fp algs nle w"
  by (auto simp: hash_artifact_def digest_each_any_strings Let_def
      simp del: digest_each.simps split: prod.splits sum.splits)

lemma record_files_any_strings:
  "record_files (x\<lparr>LIST_OF_ANY_STRING_SCHEMA := v\<rparr>) nle ls fps d w
     = record_files x nle ls fps d w"
  by (induction fps arbitrary: d w)
     (auto simp: hash_artifact_any_strings split: sum.splits prod.splits)

lemma apply_exclude_patterns_any_strings:
  "apply_exclude_patterns (x\<lparr>LIST_OF_ANY_STRING_SCHEMA := v\<rparr>) names pats
     = apply_exclude_patterns x names pats"
  by (simp add: apply_exclude_patterns_def)

lemma walk_filepaths_any_strings:
  "walk_filepaths (x\<lparr>LIST_OF_ANY_STRING_SCHEMA := v\<rparr>) pats w wr files
     = walk_filepaths x pats w wr files"
  by (simp add: walk_filepaths_def apply_exclude_patterns_any_strings Let_def)

lemma walk_prune_any_strings:
  "walk_prune (x\<lparr>LIST_OF_ANY_STRING_SCHEMA := v\<rparr>) pats = walk_prune x pats"
  by (simp add: walk_prune_def apply_exclude_patterns_any_strings fun_eq_iff Let_def)

lemma record_walk_any_strings:
  "record_walk (x\<lparr>LIST_OF_ANY_STRING_SCHEMA := v\<rparr>) pats nle ls lv d w
     = record_walk x pats nle ls lv d w"
  by (induction lv arbitrary: d w)
     (auto simp: record_files_any_strings walk_filepaths_any_strings
        split: sum.splits prod.splits)

lemma record_each_any_strings:
  "record_each (x\<lparr>LIST_OF_ANY_STRING_SCHEMA := v\<rparr>) pats fl nle ls arts d w
     = record_each x pats fl nle ls arts d w"
  by (induction arts arbitrary: d w)
     (auto simp: hash_artifact_any_strings record_walk_any_strings walk_prune_any_strings
        Let_def split: sum.splits prod.splits option.splits node.splits)

lemma scan_artifacts_any_strings:
  "scan_artifacts (x\<lparr>LIST_OF_ANY_STRING_SCHEMA := v\<rparr>) arts ep fl nle ls w
     = scan_artifacts x arts ep fl nle ls w"
  by (simp add: scan_artifacts_def record_each_any_strings effective_exclude_patterns_def
      apply_exclude_patterns_any_strings Let_def cong: option.case_cong)

lemma record_artifacts_as_dict_any_strings:
  "record_artifacts_as_dict (x\<lparr>LIST_OF_ANY_STRING_SCHEMA := v\<rparr>) arts ep bp fl nle ls w
     = record_artifacts_as_dict x arts ep bp fl nle ls w"
  by (auto simp: record_artifacts_as_dict_def scan_artifacts_any_strings
      effective_base_path_def Let_def split: sum.splits prod.splits)

lemma sign_and_dump_any_strings:
  "sign_and_dump (x\<lparr>LIST_OF_ANY_STRING_SCHEMA := v\<rparr>) md chosen step_name mdir w
     = sign_and_dump x md chosen step_name mdir w"
  by (simp add: sign_and_dump_def cong: option.case_cong sum.case_cong)

lemma formats_ok_any_strings:
  "formats_ok (x\<lparr>LIST_OF_ANY_STRING_SCHEMA := v\<rparr>) sk gk ep bp mdir = formats_ok x sk gk ep bp mdir"
  by (simp add: formats_ok_def check_match_signing_key_def cong: option.case_cong)

text \<open>
  Claim C10. With an empty command \<^verbatim>\<open>in_toto_run\<close> starts no child process (none is
  launched, none is killed, no temporary file is made), does not consult the schema for the
  command (the outcome is the same whatever that schema answers, and whatever the command
  would have done), and the payload of the metadata it returns has the empty mapping as
  its byproducts.
\<close>

theorem in_toto_run_empty_command:
  "(\<forall>v c'. in_toto_run (x\<lparr>LIST_OF_ANY_STRING_SCHEMA := v\<rparr>) c' step_name material_list
               product_list [] record_streams signing_key gpg_keyid gpg_use_default gpg_home
               exclude_patterns base_path compact_json record_environment
               normalize_line_endings lstrip_paths metadata_directory use_dsse w
           = in_toto_run x c step_name material_list product_list [] record_streams
               signing_key gpg_keyid gpg_use_default gpg_home exclude_patterns base_path
               compact_json record_environment normalize_line_endings lstrip_paths
               metadata_directory use_dsse w)
   \<and> (\<forall>r w'. in_toto_run x c step_name material_list product_list [] record_streams
                 signing_key gpg_keyid gpg_use_default gpg_home exclude_patterns base_path
                 compact_json record_environment normalize_line_endings lstrip_paths
                 metadata_directory use_dsse w = (r, w')
          \<longrightarrow> launched w' = launched w \<and> killed w' = killed w \<and> tmpfiles w' = tmpfiles w
              \<and> (\<forall>md. r = Inr md \<longrightarrow> byproducts (get_payload md) = Map.empty))"
proof (intro conjI allI impI)
  fix v c'
  show "in_toto_run (x\<lparr>LIST_OF_ANY_STRING_SCHEMA := v\<rparr>) c' step_name material_list
               product_list [] record_streams signing_key gpg_keyid gpg_use_default gpg_home
               exclude_patterns base_path compact_json record_environment
               normalize_line_endings lstrip_paths metadata_directory use_dsse w
           = in_toto_run x c step_name material_list product_list [] record_streams
               signing_key gpg_keyid gpg_use_default gpg_home exclude_patterns base_path
               compact_json record_environment normalize_line_endings lstrip_paths
               metadata_directory use_dsse w"
    by (simp add: in_toto_run_def run_command_def formats_ok_any_strings
        record_artifacts_as_dict_any_strings sign_and_dump_any_strings
        cong: sum.case_cong prod.case_cong if_cong)
next
  fix r w'
  assume run: "in_toto_run x c step_name material_list product_list [] record_streams
                 signing_key gpg_keyid gpg_use_default gpg_home exclude_patterns base_path
                 compact_json record_environment normalize_line_endings lstrip_paths
                 metadata_directory use_dsse w = (r, w')"
  obtain r1 w1 where m: "record_artifacts_as_dict x material_list exclude_patterns base_path
      True normalize_line_endings lstrip_paths w = (r1, w1)" by force
  note f1 = record_artifacts_as_dict_frame [OF m]
  obtain r3 w3 where p: "record_artifacts_as_dict x product_list exclude_patterns base_path
      True normalize_line_endings lstrip_paths w1 = (r3, w3)" by force
  note f3 = record_artifacts_as_dict_frame [OF p]
  have all: "launched w' = launched w \<and> killed w' = killed w \<and> tmpfiles w' = tmpfiles w
        \<and> (\<forall>md. r = Inr md \<longrightarrow> byproducts (get_payload md) = Map.empty)"
  proof (cases "formats_ok x signing_key gpg_keyid exclude_patterns base_path metadata_directory")
    case False
    with run show ?thesis by (auto simp: in_toto_run_def)
  next
    case ok: True
    show ?thesis
    proof (cases r1)
      case (Inl e)
      with run ok m f1 show ?thesis by (auto simp: in_toto_run_def)
    next
      case (Inr materials_dict)
      show ?thesis
      proof (cases "product_list \<noteq> [] \<and> \<not> PATHS_SCHEMA x product_list")
        case True
        with run ok m Inr f1 show ?thesis by (auto simp: in_toto_run_def run_command_def)
      next
        case pok: False
        show ?thesis
        proof (cases r3)
          case (Inl e)
          with run ok m Inr pok p f1 f3 show ?thesis
            by (auto simp: in_toto_run_def run_command_def)
        next
          case pr: (Inr products_dict)
          let ?md = "new_metadata use_dsse compact_json
                 \<lparr>name = step_name, materials = materials_dict, products = products_dict,
                  command = [], byproducts = Map.empty,
                  environment = workdir_environment record_environment w3\<rparr>"
          from run ok m Inr pok p pr
          have sd: "sign_and_dump x ?md
                  (choose_signer signing_key gpg_keyid gpg_use_default gpg_home)
                  step_name metadata_directory w3 = (r, w')"
            by (auto simp: in_toto_run_def run_command_def)
          note f4 = sign_and_dump_frame [OF sd]
          have "byproducts (get_payload ?md) = Map.empty"
            by (simp add: new_metadata_def)
          with f1 f3 f4 show ?thesis by simp
        qed
      qed
    qed
  qed
  from all show "launched w' = launched w" by simp
  from all show "killed w' = killed w" by simp
  from all show "tmpfiles w' = tmpfiles w" by simp
  fix md assume "r = Inr md"
  with all show "byproducts (get_payload md) = Map.empty" by simp
qed


lemma in_toto_run_example_returns:
  "\<not> isl (fst (in_toto_run ext_example child_slow ''build'' [''x''] [''x''] [] False
               None None False None [] None False False False [] None False world_example))"
  by (simp add: example_defs path_defs world_defs scan_defs run_defs Let_def)

theorem in_toto_run_empty_command_witness:
  "\<exists>md w'. in_toto_run ext_example child_slow ''build'' [''x''] [''x''] [] False
               None None False None [] None False False False [] None False world_example
             = (Inr md, w')
        \<and> launched w' = launched world_example \<and> killed w' = killed world_example
        \<and> byproducts (get_payload md) = Map.empty
        \<and> in_toto_run (ext_example\<lparr>LIST_OF_ANY_STRING_SCHEMA := (\<lambda>ss. False)\<rparr>) child_burst
              ''build'' [''x''] [''x''] [] False
              None None False None [] None False False False [] None False world_example
            = (Inr md, w')"
proof -
  obtain r w' where
    run: "in_toto_run ext_example child_slow ''build'' [''x''] [''x''] [] False
            None None False None [] None False False False [] None False world_example
          = (r, w')" by force
  with in_toto_run_example_returns obtain md where r: "r = Inr md" by (cases r) auto
  note t = in_toto_run_empty_command [of ext_example step_name material_list product_list
      record_streams signing_key gpg_keyid gpg_use_default gpg_home exclude_patterns base_path
      compact_json record_environment normalize_line_endings lstrip_paths metadata_directory
      use_dsse world_example child_slow
      for step_name material_list product_list record_streams signing_key gpg_keyid
        gpg_use_default gpg_home exclude_patterns base_path compact_json record_environment
        normalize_line_endings lstrip_paths metadata_directory use_dsse]
  from t run r show ?thesis by metis
qed

subsection \<open>No credential\<close>

lemma run_command_links:
  "run_command x c cmd record_streams w = (r, w') \<Longrightarrow> links w' = links w"
  by (auto simp: run_command_def split: if_splits dest: execute_link_links)

text \<open>
  Claim C8. Without a signing key, without a gpg key id and without the default gpg key,
  \<^verbatim>\<open>in_toto_run\<close> writes no metadata file, whatever its outcome, and what it returns
  has no signature. When the arguments have their formats, the materials are recorded, the
  command (if there is one) is a list of strings and has run, and the products are
  recorded, it returns the new metadata object (an envelope, or a metablock with the given
  \<^verbatim>\<open>compact_json\<close>) without a signature around the link that holds the step name, the
  materials and the products as they were recorded, the command, the byproducts of the
  run and, if asked for, the working directory; and it returns nothing unless these steps
  have succeeded.
\<close>

theorem in_toto_run_no_credential:
  assumes "signing_key = None" and "\<not> truthy gpg_keyid" and "\<not> gpg_use_default"
  shows
    "(\<forall>r w'.
        in_toto_run x c step_name material_list product_list link_cmd_args record_streams
          signing_key gpg_keyid gpg_use_default gpg_home exclude_patterns base_path
          compact_json record_environment normalize_line_endings lstrip_paths
          metadata_directory use_dsse w = (r, w')
        \<longrightarrow> links w' = links w \<and> (\<forall>md. r = Inr md \<longrightarrow> signatures md = []))
     \<and> (\<forall>materials_dict w1 bp w2 products_dict w3.
          formats_ok x signing_key gpg_keyid exclude_patterns base_path metadata_directory
          \<longrightarrow> record_artifacts_as_dict x material_list exclude_patterns base_path True
                normalize_line_endings lstrip_paths w = (Inr materials_dict, w1)
          \<longrightarrow> (if link_cmd_args = [] then bp = Map.empty \<and> w2 = w1
               else LIST_OF_ANY_STRING_SCHEMA x link_cmd_args
                    \<and> execute_link x c link_cmd_args record_streams w1 = (Inr bp, w2))
          \<longrightarrow> product_list = [] \<or> PATHS_SCHEMA x product_list
          \<longrightarrow> record_artifacts_as_dict x product_list exclude_patterns base_path True
                normalize_line_endings lstrip_paths w2 = (Inr products_dict, w3)
          \<longrightarrow> in_toto_run x c step_name material_list product_list link_cmd_args
                record_streams signing_key gpg_keyid gpg_use_default gpg_home
                exclude_patterns base_path compact_json record_environment
                normalize_line_endings lstrip_paths metadata_directory use_dsse w
              = (Inr (if use_dsse
                      then Envelope
                             \<lparr>name = step_name, materials = materials_dict,
                              products = products_dict, command = link_cmd_args,
                              byproducts = bp,
                              environment =
                                (if record_environment
                                 then [''workdir'' \<mapsto> replace_backslash (cwd w3)]
                                 else Map.empty)\<rparr> []
                      else Metablock
                             \<lparr>name = step_name, materials = materials_dict,
                              products = products_dict, command = link_cmd_args,
                              byproducts = bp,
                              environment =
                                (if record_environment
                                 then [''workdir'' \<mapsto> replace_backslash (cwd w3)]
                                 else Map.empty)\<rparr> [] compact_json),
                 w3))
     \<and> (\<forall>md w'.
          in_toto_run x c step_name material_list product_list link_cmd_args record_streams
            signing_key gpg_keyid gpg_use_default gpg_home exclude_patterns base_path
            compact_json record_environment normalize_line_endings lstrip_paths
            metadata_directory use_dsse w = (Inr md, w')
          \<longrightarrow> (\<exists>materials_dict w1 bp w2 products_dict.
                 formats_ok x signing_key gpg_keyid exclude_patterns base_path
                   metadata_directory
                 \<and> record_artifacts_as_dict x material_list exclude_patterns base_path True
                       normalize_line_endings lstrip_paths w = (Inr materials_dict, w1)
                 \<and> (if link_cmd_args = [] then bp = Map.empty \<and> w2 = w1
                      else LIST_OF_ANY_STRING_SCHEMA x link_cmd_args
                           \<and> execute_link x c link_cmd_args record_streams w1 = (Inr bp, w2))
                 \<and> (product_list = [] \<or> PATHS_SCHEMA x product_list)
                 \<and> record_artifacts_as_dict x product_list exclude_patterns base_path True
                       normalize_line_endings lstrip_paths w2 = (Inr products_dict, w')))"
  (is "?unwritten \<and> ?assembled \<and> ?only")
proof -
  let ?run = "in_toto_run x c step_name material_list product_list link_cmd_args
                record_streams signing_key gpg_keyid gpg_use_default gpg_home
                exclude_patterns base_path compact_json record_environment
                normalize_line_endings lstrip_paths metadata_directory use_dsse w"
  let ?fmt = "formats_ok x signing_key gpg_keyid exclude_patterns base_path
                metadata_directory"
  let ?link = "\<lambda>materials_dict bp products_dict w3.
                 \<lparr>name = step_name, materials = materials_dict, products = products_dict,
                  command = link_cmd_args, byproducts = bp,
                  environment = (if record_environment
                                 then [''workdir'' \<mapsto> replace_backslash (cwd w3)]
                                 else Map.empty)\<rparr>"
  let ?md = "\<lambda>l. if use_dsse then Envelope l [] else Metablock l [] compact_json"
  have ns: "choose_signer signing_key gpg_keyid gpg_use_default gpg_home = None"
    using assms(1,2,3) by (simp add: choose_signer_def)
  obtain r1 v1 where
    m: "record_artifacts_as_dict x material_list exclude_patterns base_path True
          normalize_line_endings lstrip_paths w = (r1, v1)" by force
  note f1 = record_artifacts_as_dict_frame [OF m]
  obtain r2 v2 where c: "run_command x c link_cmd_args record_streams v1 = (r2, v2)" by force
  note f2 = run_command_links [OF c]
  obtain r3 v3 where
    p: "record_artifacts_as_dict x product_list exclude_patterns base_path True
          normalize_line_endings lstrip_paths v2 = (r3, v3)" by force
  note f3 = record_artifacts_as_dict_frame [OF p]
  have cmd: "\<And>bp w2. r2 = Inr bp \<and> v2 = w2
               \<longleftrightarrow> (if link_cmd_args = [] then bp = Map.empty \<and> w2 = v1
                    else LIST_OF_ANY_STRING_SCHEMA x link_cmd_args
                         \<and> execute_link x c link_cmd_args record_streams v1 = (Inr bp, w2))"
    using c by (auto simp: run_command_def split: if_splits)
  have run: "?run
      = (if \<not> ?fmt then (Inl FormatError, w)
         else (case r1 of
                 Inl e \<Rightarrow> (Inl e, v1)
               | Inr materials_dict \<Rightarrow>
                   (case r2 of
                      Inl e \<Rightarrow> (Inl e, v2)
                    | Inr bp \<Rightarrow>
                        (if product_list \<noteq> [] \<and> \<not> PATHS_SCHEMA x product_list
                         then (Inl FormatError, v2)
                         else (case r3 of
                                 Inl e \<Rightarrow> (Inl e, v3)
                               | Inr products_dict \<Rightarrow>
                                   (Inr (?md (?link materials_dict bp products_dict v3)),
                                    v3))))))"
    using m c p ns
    by (auto simp: in_toto_run_def sign_and_dump_def new_metadata_def
        workdir_environment_def split: sum.splits)
  have ?unwritten
  proof (intro allI impI)
    fix r w'
    assume "?run = (r, w')"
    with run f1(1) f2 f3(1)
    show "links w' = links w \<and> (\<forall>md. r = Inr md \<longrightarrow> signatures md = [])"
      by (auto split: if_splits sum.splits)
  qed
  moreover have ?assembled
  proof (intro allI impI)
    fix materials_dict w1 bp w2 products_dict w3
    assume fmt: "?fmt"
      and scan1: "record_artifacts_as_dict x material_list exclude_patterns base_path True
                    normalize_line_endings lstrip_paths w = (Inr materials_dict, w1)"
      and ran: "if link_cmd_args = [] then bp = Map.empty \<and> w2 = w1
                else LIST_OF_ANY_STRING_SCHEMA x link_cmd_args
                     \<and> execute_link x c link_cmd_args record_streams w1 = (Inr bp, w2)"
      and pok: "product_list = [] \<or> PATHS_SCHEMA x product_list"
      and scan2: "record_artifacts_as_dict x product_list exclude_patterns base_path True
                    normalize_line_endings lstrip_paths w2 = (Inr products_dict, w3)"
    from m scan1 have 1: "r1 = Inr materials_dict" "v1 = w1" by simp_all
    from ran 1(2) cmd [of bp w2] have "r2 = Inr bp \<and> v2 = w2" by simp
    then have 2: "r2 = Inr bp" "v2 = w2" by simp_all
    from p scan2 2(2) have 3: "r3 = Inr products_dict" "v3 = w3" by simp_all
    from run fmt pok 1 2 3
    show "?run = (Inr (?md (?link materials_dict bp products_dict w3)), w3)"
      by auto
  qed
  moreover have ?only
  proof (intro allI impI)
    fix md w'
    assume "?run = (Inr md, w')"
    with run obtain materials_dict bp products_dict where
      ok: "?fmt" "r1 = Inr materials_dict" "r2 = Inr bp"
          "product_list = [] \<or> PATHS_SCHEMA x product_list"
          "r3 = Inr products_dict" "v3 = w'"
      by (auto split: if_splits sum.splits)
    from cmd [of bp v2] ok(3)
    have "if link_cmd_args = [] then bp = Map.empty \<and> v2 = v1
          else LIST_OF_ANY_STRING_SCHEMA x link_cmd_args
               \<and> execute_link x c link_cmd_args record_streams v1 = (Inr bp, v2)"
      by simp
    with ok m p
    show "\<exists>materials_dict w1 bp w2 products_dict.
            ?fmt
            \<and> record_artifacts_as_dict x material_list exclude_patterns base_path True
                  normalize_line_endings lstrip_paths w = (Inr materials_dict, w1)
            \<and> (if link_cmd_args = [] then bp = Map.empty \<and> w2 = w1
                 else LIST_OF_ANY_STRING_SCHEMA x link_cmd_args
                      \<and> execute_link x c link_cmd_args record_streams w1 = (Inr bp, w2))
            \<and> (product_list = [] \<or> PATHS_SCHEMA x product_list)
            \<and> record_artifacts_as_dict x product_list exclude_patterns base_path True
                  normalize_line_endings lstrip_paths w2 = (Inr products_dict, w')"
      by blast
  qed
  ultimately show ?thesis by blast
qed

theorem in_toto_run_no_credential_witness:
  "\<not> truthy None
   \<and> in_toto_run ext_example child_quick ''build'' [''x''] [''x''] [''make''] True
         None None False None [] None False True False [] None False world_example
       = (Inr (Metablock
                 \<lparr>name = ''build'', materials = [''x'' \<mapsto> [''sha256'' \<mapsto> ''one'']],
                  products = [''x'' \<mapsto> [''sha256'' \<mapsto> ''one'']],
                  command = [''make''],
                  byproducts =
                    [''stdout'' \<mapsto> Text [CHR ''o'', CHR ''k'', CHR 0x0A, CHR ''b'', CHR ''y'',
                                          CHR ''e''],
                     ''stderr'' \<mapsto> Text ''warn'', ''return-value'' \<mapsto> Code 0],
                  environment = [''workdir'' \<mapsto> ''/w'']\<rparr> [] False),
          world_example
            \<lparr>digested := [''/w/x'', ''/w/x''], launched := [[''make'']],
             sys_stdout := [CHR ''o'', CHR ''k'', CHR 0x0A, CHR ''b'', CHR ''y'', CHR ''e''],
             sys_stderr := ''warn''\<rparr>)"
proof -
  let ?w1 = "world_example\<lparr>digested := [''/w/x'']\<rparr>"
  let ?out = "[CHR ''o'', CHR ''k'', CHR 0x0A, CHR ''b'', CHR ''y'', CHR ''e'']"
  let ?w2 = "world_example\<lparr>digested := [''/w/x''], launched := [[''make'']],
               sys_stdout := ?out, sys_stderr := ''warn''\<rparr>"
  let ?w3 = "world_example\<lparr>digested := [''/w/x'', ''/w/x''], launched := [[''make'']],
               sys_stdout := ?out, sys_stderr := ''warn''\<rparr>"
  let ?bp = "[''stdout'' \<mapsto> Text ?out, ''stderr'' \<mapsto> Text ''warn'',
              ''return-value'' \<mapsto> Code 0]"
  have nt: "\<not> truthy None" by (simp add: truthy_def)
  have f: "formats_ok ext_example None None [] None None"
    by (simp add: formats_ok_def)
  have m: "record_artifacts_as_dict ext_example [''x''] [] None True False [] world_example
             = (Inr [''x'' \<mapsto> [''sha256'' \<mapsto> ''one'']], ?w1)"
    by (simp add: example_defs path_defs world_defs scan_defs Let_def)
  have c: "if [''make''] = [] then ?bp = Map.empty \<and> ?w2 = ?w1
           else LIST_OF_ANY_STRING_SCHEMA ext_example [''make'']
                \<and> execute_link ext_example child_quick [''make''] True ?w1 = (Inr ?bp, ?w2)"
    by (simp add: child_quick_def example_defs exec_defs reader_defs Let_def)
  have s: "[''x''] = [] \<or> PATHS_SCHEMA ext_example [''x'']"
    by (simp add: ext_example_def)
  have p: "record_artifacts_as_dict ext_example [''x''] [] None True False [] ?w2
             = (Inr [''x'' \<mapsto> [''sha256'' \<mapsto> ''one'']], ?w3)"
    by (simp add: example_defs path_defs world_defs scan_defs Let_def)
  have cw: "replace_backslash (cwd ?w3) = ''/w''"
    by (simp add: world_example_def replace_backslash_def)
  have nd: "\<not> False" by simp
  from in_toto_run_no_credential [where step_name = "''build''" and gpg_home = None
      and compact_json = False and record_environment = True and use_dsse = False
      and metadata_directory = None, OF refl nt nd, THEN conjunct2, THEN conjunct1,
      rule_format, OF f m c s p]
  show ?thesis using nt cw by simp
qed

subsection \<open>Stopping a recording\<close>

text \<open>
  Claim C5. Without a signing key (in particular, with the default gpg key)
  \<^verbatim>\<open>in_toto_record_stop\<close>, once the formats of its arguments are checked, finds the
  unfinished file by the glob pattern for the step name: the one name that matches is the
  file it loads; when no name matches, or more than one, it raises \<^verbatim>\<open>LinkNotFoundError\<close>,
  which lists the names found, and nothing has changed.
\<close>

theorem in_toto_record_stop_glob:
  assumes "signing_key = None" and "truthy gpg_keyid \<or> gpg_use_default"
    and "formats_ok x signing_key gpg_keyid exclude_patterns base_path metadata_directory"
    and "candidates = glob_glob x (UNFINISHED_FILENAME_FORMAT_GLOB step_name ''*'')"
  shows "(length candidates \<noteq> 1 \<longrightarrow>
            in_toto_record_stop x step_name product_list signing_key gpg_keyid
              gpg_use_default gpg_home exclude_patterns base_path normalize_line_endings
              lstrip_paths metadata_directory w
            = (Inl (LinkNotFoundError candidates), w))
       \<and> (length candidates = 1 \<longrightarrow>
            locate_unfinished x step_name signing_key = Inr (hd candidates)
            \<and> (\<forall>e. Metadata_load (hd candidates) w = Inl e \<longrightarrow>
                  in_toto_record_stop x step_name product_list signing_key gpg_keyid
                    gpg_use_default gpg_home exclude_patterns base_path
                    normalize_line_endings lstrip_paths metadata_directory w
                  = (Inl e, w)))"
proof -
  have nk: "\<not> no_key_argument signing_key gpg_keyid gpg_use_default"
    using assms(2) by (auto simp: no_key_argument_def)
  show ?thesis
  proof (cases candidates)
    case Nil
    with assms(1,4) have "locate_unfinished x step_name signing_key = Inl (LinkNotFoundError [])"
      by (simp add: locate_unfinished_def Let_def split: list.splits)
    with nk assms(3) Nil show ?thesis by (simp add: in_toto_record_stop_def)
  next
    case (Cons fn rest)
    show ?thesis
    proof (cases rest)
      case Nil
      with Cons assms(1,4) have "locate_unfinished x step_name signing_key = Inr fn"
        by (simp add: locate_unfinished_def Let_def split: list.splits)
      with nk assms(3) Cons Nil show ?thesis by (simp add: in_toto_record_stop_def)
    next
      case (Cons fn2 rest2)
      with \<open>candidates = fn # rest\<close> assms(1,4)
      have "locate_unfinished x step_name signing_key = Inl (LinkNotFoundError candidates)"
        by (simp add: locate_unfinished_def Let_def split: list.splits)
      with nk assms(3) Cons \<open>candidates = fn # rest\<close> show ?thesis
        by (simp add: in_toto_record_stop_def)
    qed
  qed
qed

theorem in_toto_record_stop_glob_witness:
  "in_toto_record_stop ext_example ''build'' [''x''] None None True None [] None False []
       None world_example
     = (Inl (LinkNotFoundError []), world_example)
   \<and> in_toto_record_stop
       (ext_example\<lparr>glob_glob := (\<lambda>pat. if pat = ''.build.*.link-unfinished''
                                          then [''.build.11111111.link-unfinished'',
                                                ''.build.22222222.link-unfinished'']
                                          else [])\<rparr>)
       ''build'' [''x''] None None True None [] None False [] None world_example
     = (Inl (LinkNotFoundError [''.build.11111111.link-unfinished'',
                                ''.build.22222222.link-unfinished'']), world_example)
   \<and> in_toto_record_stop
       (ext_example\<lparr>glob_glob := (\<lambda>pat. if pat = ''.build.*.link-unfinished''
                                          then [''.build.11111111.link-unfinished'']
                                          else [])\<rparr>)
       ''build'' [''x''] None None True None [] None False [] None world_example
     = (Inl IOError, world_example)"
proof -
  let ?two = "[''.build.11111111.link-unfinished'', ''.build.22222222.link-unfinished'']"
  let ?x2 = "ext_example\<lparr>glob_glob := (\<lambda>pat. if pat = ''.build.*.link-unfinished''
                                          then ?two else [])\<rparr>"
  let ?one = "[''.build.11111111.link-unfinished'']"
  let ?x1 = "ext_example\<lparr>glob_glob := (\<lambda>pat. if pat = ''.build.*.link-unfinished''
                                          then ?one else [])\<rparr>"
  have f0: "formats_ok ext_example None None [] None None"
    and f2: "formats_ok ?x2 None None [] None None"
    and f1: "formats_ok ?x1 None None [] None None"
    by (simp_all add: formats_ok_def)
  have g0: "[] = glob_glob ext_example (UNFINISHED_FILENAME_FORMAT_GLOB ''build'' ''*'')"
    by (simp add: ext_example_def)
  have g2: "?two = glob_glob ?x2 (UNFINISHED_FILENAME_FORMAT_GLOB ''build'' ''*'')"
    by (simp add: UNFINISHED_FILENAME_FORMAT_GLOB_def)
  have g1: "?one = glob_glob ?x1 (UNFINISHED_FILENAME_FORMAT_GLOB ''build'' ''*'')"
    by (simp add: UNFINISHED_FILENAME_FORMAT_GLOB_def)
  have l1: "Metadata_load (hd ?one) world_example = Inl IOError"
    by (simp add: Metadata_load_def world_example_def)
  from in_toto_record_stop_glob [OF _ _ f0 g0, of True "[''x'']" None False "[]" world_example]
  have a: "in_toto_record_stop ext_example ''build'' [''x''] None None True None [] None
             False [] None world_example = (Inl (LinkNotFoundError []), world_example)"
    by simp
  from in_toto_record_stop_glob [OF _ _ f2 g2, of True "[''x'']" None False "[]" world_example]
  have b: "in_toto_record_stop ?x2 ''build'' [''x''] None None True None [] None
             False [] None world_example = (Inl (LinkNotFoundError ?two), world_example)"
    by simp
  from in_toto_record_stop_glob [OF _ _ f1 g1, of True "[''x'']" None False "[]" world_example] l1
  have c: "in_toto_record_stop ?x1 ''build'' [''x''] None None True None [] None
             False [] None world_example = (Inl IOError, world_example)"
    by simp
  from a b c show ?thesis by simp
qed

lemma record_artifacts_as_dict_returns_cwd:
  assumes "startswith (cwd w) ''/''"
    and "record_artifacts_as_dict x arts ep bp fl nle ls w = (Inr d, w')"
  shows "cwd w' = cwd w"
proof (cases "arts = []")
  case True
  with assms(2) show ?thesis by (simp add: record_artifacts_as_dict_def)
next
  case False
  let ?base = "effective_base_path x bp"
  from assms(2) False obtain w1 where enter: "enter_base_path ?base w = Inr w1"
    by (auto simp: record_artifacts_as_dict_def Let_def split: sum.splits)
  obtain r2 w2 where scan: "scan_artifacts x arts ep fl nle ls w1 = (r2, w2)" by force
  then have "digests_under w1 w2" by (rule scan_artifacts_frame)
  then have c2: "cwd w2 = cwd w1" by (rule digests_under_cwd)
  from assms(2) False enter scan have r2: "r2 = Inr d"
    by (auto simp: record_artifacts_as_dict_def Let_def split: sum.splits if_splits)
  show ?thesis
  proof (cases "truthy ?base")
    case True
    with assms(2) False enter scan r2 obtain w3 where
      bk: "os_chdir (cwd w) w2 = Inr w3" and w3: "w' = w3"
      by (auto simp: record_artifacts_as_dict_def Let_def split: sum.splits)
    from bk have "cwd w3 = os_path_join (cwd w2) (cwd w)"
      by (auto simp: os_chdir_def split: if_splits)
    with assms(1) w3 show ?thesis by (simp add: os_path_join_def)
  next
    case nb: False
    then have "w1 = w" using enter
      by (auto simp: enter_base_path_def truthy_def split: option.splits if_splits)
    moreover from assms(2) False enter scan r2 nb have "w' = w2"
      by (auto simp: record_artifacts_as_dict_def Let_def)
    ultimately show ?thesis using c2 by simp
  qed
qed

lemma signatures_add_signature: "signatures (add_signature md s) = signatures md @ [s]"
  by (cases md) simp_all

lemma finish_link_links:
  assumes "links w1 (os_path_join (cwd w1) fn) \<noteq> None"
    and "finish_link x step_name fn loaded kid signing_key gpg_home metadata_directory
           products_dict w1 = (r, w')"
  shows "(\<forall>e. r = Inl e \<longrightarrow> links w' = links w1)
       \<and> (r = Inr () \<longrightarrow>
            (\<exists>final. signatures final \<noteq> []
               \<and> products (get_payload final) = products_dict
               \<and> links w' = ((links w1)
                    (os_path_join (cwd w1)
                       (in_directory metadata_directory (FILENAME_FORMAT step_name kid))
                     \<mapsto> final))
                    (os_path_join (cwd w1) fn := None)))"
proof -
  let ?md = "rewrap loaded ((get_payload loaded)\<lparr>products := products_dict\<rparr>)"
  let ?F = "os_path_join (cwd w1)
              (in_directory metadata_directory (FILENAME_FORMAT step_name kid))"
  let ?P = "os_path_join (cwd w1) fn"
  have pl: "products (get_payload ?md) = products_dict" by (cases loaded) simp_all
  show ?thesis
  proof (cases "create_signature x ?md (stop_signer signing_key kid gpg_home)")
    case (Inl e)
    with assms(2) show ?thesis by (auto simp: finish_link_def Let_def)
  next
    case (Inr sig)
    let ?final = "add_signature ?md sig"
    show ?thesis
    proof (cases "writable w1 ?F")
      case False
      with assms(2) Inr show ?thesis by (auto simp: finish_link_def dump_def Let_def)
    next
      case True
      let ?w2 = "w1\<lparr>links := (links w1)(?F \<mapsto> ?final)\<rparr>"
      have d: "dump ?final (in_directory metadata_directory (FILENAME_FORMAT step_name kid)) w1
                 = Inr ?w2"
        using True by (simp add: dump_def Let_def)
      have "links ?w2 (os_path_join (cwd ?w2) fn) \<noteq> None" using assms(1) by simp
      then have rm: "os_remove fn ?w2 = Inr (?w2\<lparr>links := (links ?w2)(?P := None)\<rparr>)"
        by (simp add: os_remove_def Let_def)
      from assms(2) Inr d rm have "r = Inr ()" and "w' = ?w2\<lparr>links := (links ?w2)(?P := None)\<rparr>"
        by (simp_all add: finish_link_def Let_def)
      moreover have "signatures ?final \<noteq> []" by (simp add: signatures_add_signature)
      moreover have "products (get_payload ?final) = products_dict"
        using pl by (simp add: get_payload_add_signature)
      ultimately show ?thesis by auto
    qed
  qed
qed

lemma last_os_path_join: "b \<noteq> [] \<Longrightarrow> last (os_path_join a b) = last b"
  by (simp add: os_path_join_def)

lemma os_path_join_nonempty: "b \<noteq> [] \<Longrightarrow> os_path_join a b \<noteq> []"
  by (simp add: os_path_join_def)

lemma final_name_differs:
  "os_path_join c (in_directory metadata_directory (FILENAME_FORMAT step_name kid))
     \<noteq> os_path_join c (UNFINISHED_FILENAME_FORMAT step_name kid')"
proof -
  have "last (os_path_join c (in_directory metadata_directory (FILENAME_FORMAT step_name kid)))
          = CHR ''k''"
    by (cases metadata_directory)
       (simp_all add: in_directory_def FILENAME_FORMAT_def last_os_path_join
          os_path_join_nonempty)
  moreover have "last (os_path_join c (UNFINISHED_FILENAME_FORMAT step_name kid')) = CHR ''d''"
    by (simp add: UNFINISHED_FILENAME_FORMAT_def last_os_path_join)
  ultimately show ?thesis by auto
qed


text \<open>
  Claim C1. \<^verbatim>\<open>in_toto_record_stop\<close>, called in a working directory named by an absolute
  path, leaves the metadata files as they are whenever it raises an exception; when it
  returns, the files are the former ones with the final link metadata (signed, with the
  recorded products) written first and the unfinished file removed after that. When the
  signature of the loaded unfinished file does not verify with the key derived from the
  arguments, \<^verbatim>\<open>SignatureVerificationError\<close> is raised and nothing has changed. With a
  signing key the two file names differ, so after the return the final file exists and the
  unfinished file does not.
\<close>

theorem in_toto_record_stop_removal:
  assumes "startswith (cwd w) ''/''"
    and "in_toto_record_stop x step_name product_list signing_key gpg_keyid gpg_use_default
           gpg_home exclude_patterns base_path normalize_line_endings lstrip_paths
           metadata_directory w = (r, w')"
  shows "(\<forall>e. r = Inl e \<longrightarrow> links w' = links w)
       \<and> (r = Inr () \<longrightarrow>
            (\<exists>fn loaded kid vkey final.
                locate_unfinished x step_name signing_key = Inr fn
              \<and> Metadata_load fn w = Inr loaded
              \<and> verification_key x loaded signing_key gpg_keyid gpg_home = Inr (kid, vkey)
              \<and> verify_signature x loaded vkey
              \<and> signatures final \<noteq> []
              \<and> links w' = ((links w)
                   (os_path_join (cwd w)
                      (in_directory metadata_directory (FILENAME_FORMAT step_name kid))
                    \<mapsto> final))
                   (os_path_join (cwd w) fn := None)))
       \<and> (\<forall>fn loaded kid vkey.
              \<not> no_key_argument signing_key gpg_keyid gpg_use_default
            \<and> formats_ok x signing_key gpg_keyid exclude_patterns base_path metadata_directory
            \<and> locate_unfinished x step_name signing_key = Inr fn
            \<and> Metadata_load fn w = Inr loaded
            \<and> verification_key x loaded signing_key gpg_keyid gpg_home = Inr (kid, vkey)
            \<and> \<not> verify_signature x loaded vkey
            \<longrightarrow> r = Inl SignatureVerificationError \<and> w' = w)
       \<and> (\<forall>k. signing_key = Some k \<and> r = Inr () \<longrightarrow>
              links w' (os_path_join (cwd w)
                          (in_directory metadata_directory
                             (FILENAME_FORMAT step_name (keyid k)))) \<noteq> None
            \<and> links w' (os_path_join (cwd w)
                          (UNFINISHED_FILENAME_FORMAT step_name (keyid k))) = None)"
proof -
  let ?nk = "no_key_argument signing_key gpg_keyid gpg_use_default"
  let ?ok = "formats_ok x signing_key gpg_keyid exclude_patterns base_path metadata_directory"
  let ?F = "\<lambda>kid. os_path_join (cwd w)
                      (in_directory metadata_directory (FILENAME_FORMAT step_name kid))"
  have third: "\<forall>fn loaded kid vkey.
              \<not> ?nk \<and> ?ok
            \<and> locate_unfinished x step_name signing_key = Inr fn
            \<and> Metadata_load fn w = Inr loaded
            \<and> verification_key x loaded signing_key gpg_keyid gpg_home = Inr (kid, vkey)
            \<and> \<not> verify_signature x loaded vkey
            \<longrightarrow> r = Inl SignatureVerificationError \<and> w' = w"
    using assms(2) by (auto simp: in_toto_record_stop_def)
  have main: "(\<forall>e. r = Inl e \<longrightarrow> links w' = links w)
       \<and> (r = Inr () \<longrightarrow>
            (\<exists>fn loaded kid vkey final.
                locate_unfinished x step_name signing_key = Inr fn
              \<and> Metadata_load fn w = Inr loaded
              \<and> verification_key x loaded signing_key gpg_keyid gpg_home = Inr (kid, vkey)
              \<and> verify_signature x loaded vkey
              \<and> signatures final \<noteq> []
              \<and> links w' = ((links w)(?F kid \<mapsto> final))(os_path_join (cwd w) fn := None)))"
  proof (cases "?nk \<or> \<not> ?ok")
    case True
    with assms(2) show ?thesis by (auto simp: in_toto_record_stop_def split: if_splits)
  next
    case False
    then have nk: "\<not> ?nk" and ok: "?ok" by simp_all
    show ?thesis
    proof (cases "locate_unfinished x step_name signing_key")
      case (Inl e)
      with assms(2) nk ok show ?thesis by (auto simp: in_toto_record_stop_def)
    next
      case (Inr fn)
      note loc = this
      show ?thesis
      proof (cases "Metadata_load fn w")
        case (Inl e)
        with assms(2) nk ok loc show ?thesis by (auto simp: in_toto_record_stop_def)
      next
        case (Inr loaded)
        note ld = this
        then have present: "links w (os_path_join (cwd w) fn) \<noteq> None"
          by (auto simp: Metadata_load_def split: option.splits)
        show ?thesis
        proof (cases "verification_key x loaded signing_key gpg_keyid gpg_home")
          case (Inl e)
          with assms(2) nk ok loc ld show ?thesis by (auto simp: in_toto_record_stop_def)
        next
          case (Inr kv)
          obtain kid vkey where kv: "kv = (kid, vkey)" by force
          note vk = Inr [unfolded kv]
          show ?thesis
          proof (cases "verify_signature x loaded vkey")
            case False
            with assms(2) nk ok loc ld vk show ?thesis
              by (auto simp: in_toto_record_stop_def)
          next
            case ver: True
            obtain r1 w1 where
              pr: "record_artifacts_as_dict x product_list exclude_patterns base_path True
                     normalize_line_endings lstrip_paths w = (r1, w1)" by force
            note f1 = record_artifacts_as_dict_frame [OF pr]
            show ?thesis
            proof (cases r1)
              case (Inl e)
              with assms(2) nk ok loc ld vk ver pr f1 show ?thesis
                by (auto simp: in_toto_record_stop_def)
            next
              case (Inr products_dict)
              with pr assms(1) have c1: "cwd w1 = cwd w"
                using record_artifacts_as_dict_returns_cwd by blast
              from assms(2) nk ok loc ld vk ver pr Inr
              have fin: "finish_link x step_name fn loaded kid signing_key gpg_home
                           metadata_directory products_dict w1 = (r, w')"
                by (simp add: in_toto_record_stop_def)
              have "links w1 (os_path_join (cwd w1) fn) \<noteq> None"
                using present c1 f1(1) by simp
              from finish_link_links [OF this fin] c1 f1(1) loc ld vk ver
              show ?thesis by auto
            qed
          qed
        qed
      qed
    qed
  qed
  have fourth: "\<forall>k. signing_key = Some k \<and> r = Inr () \<longrightarrow>
              links w' (?F (keyid k)) \<noteq> None
            \<and> links w' (os_path_join (cwd w)
                          (UNFINISHED_FILENAME_FORMAT step_name (keyid k))) = None"
  proof (intro allI impI)
    fix k
    assume a: "signing_key = Some k \<and> r = Inr ()"
    with main obtain fn loaded kid vkey final where
      s: "locate_unfinished x step_name signing_key = Inr fn"
         "verification_key x loaded signing_key gpg_keyid gpg_home = Inr (kid, vkey)"
         "links w' = ((links w)(?F kid \<mapsto> final))(os_path_join (cwd w) fn := None)"
      by blast
    from s(1) a have fn: "fn = UNFINISHED_FILENAME_FORMAT step_name (keyid k)"
      by (auto simp: locate_unfinished_def)
    from s(2) a have kid: "kid = keyid k" by (auto simp: verification_key_def)
    from s(3) fn kid final_name_differs [of "cwd w" metadata_directory step_name "keyid k" "keyid k"]
    show "links w' (?F (keyid k)) \<noteq> None
            \<and> links w' (os_path_join (cwd w)
                          (UNFINISHED_FILENAME_FORMAT step_name (keyid k))) = None"
      by simp
  qed
  from main third fourth show ?thesis by blast
qed


lemmas stop_defs = locate_unfinished_def verification_key_def stop_signer_def
  finish_link_def in_toto_record_stop_def
lemmas key_defs = key_one_def key_two_def started_metadata_def world_started_def

theorem in_toto_record_stop_removal_witness:
  "startswith (cwd world_started) ''/''
   \<and> in_toto_record_stop ext_example ''build'' [] (Some key_two) None False None [] None
         False [] None world_started
       = (Inl SignatureVerificationError, world_started)
   \<and> links world_started ''/w/.build.22222222.link-unfinished'' \<noteq> None
   \<and> (\<exists>w'. in_toto_record_stop ext_example ''build'' [] (Some key_one) None False None []
               None False [] None world_started
             = (Inr (), w')
          \<and> links w' ''/w/build.11111111.link'' \<noteq> None
          \<and> links w' ''/w/.build.11111111.link-unfinished'' = None)"
proof -
  have ab: "startswith (cwd world_started) ''/''"
    by (simp add: key_defs example_defs startswith_def)
  have still: "links world_started ''/w/.build.22222222.link-unfinished'' \<noteq> None"
    by (simp add: key_defs)
  have cw: "cwd world_started = ''/w''" by (simp add: key_defs example_defs)
  \<comment> \<open>the second key against the file that the first key signed\<close>
  obtain r2 w2 where
    run2: "in_toto_record_stop ext_example ''build'' [] (Some key_two) None False None []
             None False [] None world_started = (r2, w2)" by force
  have nk2: "\<not> no_key_argument (Some key_two) None False"
    by (simp add: no_key_argument_def)
  have ok2: "formats_ok ext_example (Some key_two) None [] None None"
    by (simp add: formats_ok_def check_match_signing_key_def ext_example_def key_two_def
        truthy_def)
  have loc2: "locate_unfinished ext_example ''build'' (Some key_two)
                = Inr ''.build.22222222.link-unfinished''"
    by (simp add: locate_unfinished_def UNFINISHED_FILENAME_FORMAT_def keyid_prefix_def
        key_two_def)
  have ld2: "Metadata_load ''.build.22222222.link-unfinished'' world_started
               = Inr started_metadata"
    by (simp add: Metadata_load_def world_started_def world_example_def path_defs)
  have vk2: "verification_key ext_example started_metadata (Some key_two) None None
               = Inr (keyid key_two, key_two)"
    by (simp add: verification_key_def)
  have nv2: "\<not> verify_signature ext_example started_metadata key_two"
    by (simp add: ext_example_def started_metadata_def key_two_def)
  from in_toto_record_stop_removal [OF ab run2] nk2 ok2 loc2 ld2 vk2 nv2
  have a: "r2 = Inl SignatureVerificationError \<and> w2 = world_started" by blast
  \<comment> \<open>the first key\<close>
  obtain r1 w1 where
    run1: "in_toto_record_stop ext_example ''build'' [] (Some key_one) None False None []
             None False [] None world_started = (r1, w1)" by force
  have "fst (in_toto_record_stop ext_example ''build'' [] (Some key_one) None False None []
             None False [] None world_started) = Inr ()"
    by (simp add: stop_defs key_defs example_defs path_defs world_defs run_defs
        record_artifacts_as_dict_def Let_def)
  with run1 have r1: "r1 = Inr ()" by simp
  have n1: "os_path_join (cwd world_started)
              (in_directory None (FILENAME_FORMAT ''build'' (keyid key_one)))
            = ''/w/build.11111111.link''"
    by (simp add: cw in_directory_def FILENAME_FORMAT_def keyid_prefix_def key_one_def
        path_defs)
  have u1: "os_path_join (cwd world_started)
              (UNFINISHED_FILENAME_FORMAT ''build'' (keyid key_one))
            = ''/w/.build.11111111.link-unfinished''"
    by (simp add: cw UNFINISHED_FILENAME_FORMAT_def keyid_prefix_def key_one_def path_defs)
  from in_toto_record_stop_removal [OF ab run1] r1
  have "links w1 (os_path_join (cwd world_started)
                    (in_directory None (FILENAME_FORMAT ''build'' (keyid key_one)))) \<noteq> None
        \<and> links w1 (os_path_join (cwd world_started)
                    (UNFINISHED_FILENAME_FORMAT ''build'' (keyid key_one))) = None"
    by blast
  then have b: "links w1 ''/w/build.11111111.link'' \<noteq> None
        \<and> links w1 ''/w/.build.11111111.link-unfinished'' = None"
    unfolding n1 u1 .
  from ab still a run2 b run1 r1 show ?thesis by simp
qed

subsection \<open>Normalized paths\<close>

lemma split_slash_nonempty: "split_slash s \<noteq> []"
  by (induction s) (auto split: list.splits)

lemma split_slash_append:
  "split_slash (a @ CHR ''/'' # b) = split_slash a @ split_slash b"
proof (induction a)
  case Nil
  then show ?case by simp
next
  case (Cons c a)
  obtain y ys where y: "split_slash a = y # ys"
    using split_slash_nonempty [of a] by (cases "split_slash a") auto
  with Cons show ?case by simp
qed

lemma split_slash_no_slash: "CHR ''/'' \<notin> set n \<Longrightarrow> split_slash n = [n]"
  by (induction n) auto

lemma split_slash_comps: "c \<in> set (split_slash s) \<Longrightarrow> CHR ''/'' \<notin> set c"
proof (induction s arbitrary: c)
  case Nil
  then show ?case by simp
next
  case (Cons a s)
  obtain y ys where y: "split_slash s = y # ys"
    using split_slash_nonempty [of s] by (cases "split_slash s") auto
  show ?case
  proof (cases "a = CHR ''/''")
    case True
    with Cons show ?thesis by auto
  next
    case False
    with Cons.prems y have "c = a # y \<or> c \<in> set ys" by simp
    moreover have "CHR ''/'' \<notin> set y" using Cons.IH [of y] y by simp
    moreover have "c \<in> set ys \<Longrightarrow> CHR ''/'' \<notin> set c" using Cons.IH [of c] y by simp
    ultimately show ?thesis using False by auto
  qed
qed

lemma os_path_normpath_comps:
  "s \<noteq> [] \<Longrightarrow>
   os_path_normpath s =
     (let p = replicate (initial_slashes s) CHR ''/'' @ join_slash (norm_comps (initial_slashes s) s)
      in if p = [] then ''.'' else p)"
  by (simp add: os_path_normpath_def norm_comps_def Let_def)

text \<open>The components that the loop keeps are components of the path, not empty, not a dot.\<close>

lemma normpath_step_set:
  "set (normpath_step ini acc c) \<subseteq> set acc \<union> {c'. c' = c \<and> c \<noteq> [] \<and> c \<noteq> ''.''}"
  by (auto simp: normpath_step_def dest: in_set_butlastD)

lemma foldl_normpath_step_set:
  "set (foldl (normpath_step ini) acc xs) \<subseteq> set acc \<union> {c \<in> set xs. c \<noteq> [] \<and> c \<noteq> ''.''}"
proof (induction xs arbitrary: acc)
  case Nil
  then show ?case by simp
next
  case (Cons a xs)
  have "set (foldl (normpath_step ini) (normpath_step ini acc a) xs)
          \<subseteq> set (normpath_step ini acc a) \<union> {c \<in> set xs. c \<noteq> [] \<and> c \<noteq> ''.''}"
    by (rule Cons.IH)
  with normpath_step_set [of ini acc a] show ?case by auto
qed

lemma norm_comps_good:
  "c \<in> set (norm_comps ini s) \<Longrightarrow> c \<noteq> [] \<and> c \<noteq> ''.'' \<and> CHR ''/'' \<notin> set c"
  using foldl_normpath_step_set [of ini "[]" "split_slash s"] split_slash_comps [of c s]
  unfolding norm_comps_def by auto

lemma initial_slashes_join:
  assumes "r \<noteq> []" and "valid_name n"
  shows "initial_slashes (os_path_join r n) = initial_slashes r"
proof -
  from assms(2) obtain h t where n: "n = h # t" "h \<noteq> CHR ''/''"
    by (cases n) (auto simp: valid_name_def)
  show ?thesis
  proof (cases r)
    case Nil
    with assms(1) show ?thesis by simp
  next
    case (Cons a r1)
    note r = this
    show ?thesis
    proof (cases r1)
      case Nil
      with r n show ?thesis
        by (auto simp: initial_slashes_def os_path_join_def startswith_def endswith_def)
    next
      case (Cons b r2)
      note r1 = this
      show ?thesis
      proof (cases r2)
        case Nil
        with r r1 n show ?thesis
          by (auto simp: initial_slashes_def os_path_join_def startswith_def endswith_def)
      next
        case (Cons c r3)
        with r r1 n show ?thesis
          by (auto simp: initial_slashes_def os_path_join_def startswith_def endswith_def)
      qed
    qed
  qed
qed

lemma normpath_step_valid: "valid_name n \<Longrightarrow> normpath_step ini acc n = acc @ [n]"
  by (simp add: normpath_step_def valid_name_def)

lemma norm_comps_join:
  assumes "r \<noteq> []" and "valid_name n"
  shows "norm_comps ini (os_path_join r n) = norm_comps ini r @ [n]"
proof -
  have ns: "\<not> startswith n ''/''" and sl: "CHR ''/'' \<notin> set n"
    using assms(2) by (auto simp: valid_name_def startswith_def prefix_def)
  show ?thesis
  proof (cases "endswith r ''/''")
    case True
    then obtain r0 where r0: "r = r0 @ ''/''"
      by (metis endswith_def rev_rev_ident rev_append prefix_def rev.simps(2) append_Nil rev.simps(1))
    have j: "os_path_join r n = r0 @ CHR ''/'' # n"
      using True ns r0 by (simp add: os_path_join_def)
    have "split_slash r = split_slash r0 @ [[]]"
      using split_slash_append [of r0 "[]"] r0 by simp
    then have "norm_comps ini r = foldl (normpath_step ini) [] (split_slash r0)"
      by (simp add: norm_comps_def normpath_step_def)
    moreover have "split_slash (os_path_join r n) = split_slash r0 @ [n]"
      using j split_slash_append [of r0 n] split_slash_no_slash [OF sl] by simp
    ultimately show ?thesis
      using normpath_step_valid [OF assms(2)] by (simp add: norm_comps_def)
  next
    case False
    then have j: "os_path_join r n = r @ CHR ''/'' # n"
      using ns assms(1) by (simp add: os_path_join_def)
    have "split_slash (os_path_join r n) = split_slash r @ [n]"
      using j split_slash_append [of r n] split_slash_no_slash [OF sl] by simp
    then show ?thesis
      using normpath_step_valid [OF assms(2)] by (simp add: norm_comps_def)
  qed
qed

lemma join_slash_snoc: "cs \<noteq> [] \<Longrightarrow> join_slash (cs @ [n]) = join_slash cs @ CHR ''/'' # n"
  by (induction cs rule: join_slash.induct) auto

lemma join_slash_last:
  "cs \<noteq> [] \<Longrightarrow> \<forall>c \<in> set cs. c \<noteq> [] \<and> CHR ''/'' \<notin> set c \<Longrightarrow>
   join_slash cs \<noteq> [] \<and> last (join_slash cs) \<noteq> CHR ''/''"
proof (induction cs rule: join_slash.induct)
  case 1
  then show ?case by simp
next
  case (2 x)
  then show ?case by (auto dest: last_in_set)
next
  case (3 x y ys)
  then show ?case by simp
qed

lemma join_slash_head:
  "cs \<noteq> [] \<Longrightarrow> \<forall>c \<in> set cs. c \<noteq> [] \<and> CHR ''/'' \<notin> set c \<Longrightarrow>
   hd (join_slash cs) \<noteq> CHR ''/''"
proof (induction cs rule: join_slash.induct)
  case 1
  then show ?case by simp
next
  case (2 x)
  then show ?case by (cases x) auto
next
  case (3 x y ys)
  then show ?case by (cases x) auto
qed

lemma normpath_join_form:
  assumes "r \<noteq> []" and "valid_name n"
  shows "os_path_normpath (os_path_join r n)
           = replicate (initial_slashes r) CHR ''/''
             @ join_slash (norm_comps (initial_slashes r) r @ [n])"
proof -
  have ne: "os_path_join r n \<noteq> []"
    using assms(2) by (auto simp: os_path_join_def valid_name_def)
  have "join_slash (norm_comps (initial_slashes r) r @ [n]) \<noteq> []"
    using assms(2)
    by (cases "norm_comps (initial_slashes r) r = []")
       (auto simp: join_slash_snoc valid_name_def)
  then show ?thesis
    using os_path_normpath_comps [OF ne] initial_slashes_join [OF assms]
      norm_comps_join [OF assms] by (simp add: Let_def)
qed

lemma dropWhile_not_slash:
  assumes "CHR ''/'' \<notin> set n" and "pre = [] \<or> last pre = CHR ''/''"
  shows "rev (dropWhile (\<lambda>c. c \<noteq> CHR ''/'') (rev (pre @ n))) = pre"
proof -
  have "dropWhile (\<lambda>c. c \<noteq> CHR ''/'') (rev n @ rev pre)
          = dropWhile (\<lambda>c. c \<noteq> CHR ''/'') (rev pre)"
    using assms(1) by (intro dropWhile_append2) auto
  moreover have "dropWhile (\<lambda>c. c \<noteq> CHR ''/'') (rev pre) = rev pre"
    using assms(2) by (cases pre rule: rev_cases) auto
  ultimately show ?thesis by simp
qed

lemma takeWhile_not_slash:
  assumes "CHR ''/'' \<notin> set n" and "pre = [] \<or> last pre = CHR ''/''"
  shows "rev (takeWhile (\<lambda>c. c \<noteq> CHR ''/'') (rev (pre @ n))) = n"
proof -
  have "takeWhile (\<lambda>c. c \<noteq> CHR ''/'') (rev n @ rev pre)
          = rev n @ takeWhile (\<lambda>c. c \<noteq> CHR ''/'') (rev pre)"
    using assms(1) by (intro takeWhile_append2) auto
  moreover have "takeWhile (\<lambda>c. c \<noteq> CHR ''/'') (rev pre) = []"
    using assms(2) by (cases pre rule: rev_cases) auto
  ultimately show ?thesis by simp
qed

lemma normpath_join_split:
  assumes "r \<noteq> []" and "valid_name n"
  shows "os_path_normpath (os_path_join r n) = join_prefix r @ n"
  using normpath_join_form [OF assms]
  by (auto simp: join_prefix_def Let_def join_slash_snoc)

lemma join_prefix_last: "join_prefix r = [] \<or> last (join_prefix r) = CHR ''/''"
  by (cases "initial_slashes r = 0") (auto simp: join_prefix_def Let_def)

lemma basename_normpath_join:
  assumes "r \<noteq> []" and "valid_name n"
  shows "os_path_basename (os_path_normpath (os_path_join r n)) = n"
proof -
  have sl: "CHR ''/'' \<notin> set n" using assms(2) by (simp add: valid_name_def)
  show ?thesis
    unfolding os_path_basename_def normpath_join_split [OF assms]
    by (rule takeWhile_not_slash [OF sl join_prefix_last])
qed

lemma parent_dir_normpath_join:
  assumes "r \<noteq> []" and "valid_name n"
  shows "parent_dir (os_path_normpath (os_path_join r n)) = os_path_normpath r"
proof -
  let ?ini = "initial_slashes r"
  let ?cs = "norm_comps ?ini r"
  let ?sl = "replicate ?ini CHR ''/''"
  let ?pre = "if ?cs = [] then ?sl else ?sl @ join_slash ?cs @ ''/''"
  have sl: "CHR ''/'' \<notin> set n" using assms(2) by (simp add: valid_name_def)
  have jp: "join_prefix r = ?pre" by (simp add: join_prefix_def Let_def)
  have head: "rev (dropWhile (\<lambda>c. c \<noteq> CHR ''/'') (rev (os_path_normpath (os_path_join r n))))
                = ?pre"
    unfolding normpath_join_split [OF assms]
    using dropWhile_not_slash [OF sl join_prefix_last, of r] jp by simp
  have nr: "os_path_normpath r = (if ?sl @ join_slash ?cs = [] then ''.'' else ?sl @ join_slash ?cs)"
    using os_path_normpath_comps [OF assms(1)] by (simp add: Let_def)
  show ?thesis
  proof (cases "?cs = []")
    case True
    then have "?pre = ?sl" by simp
    with head have "os_path_dirname (os_path_normpath (os_path_join r n)) = ?sl"
      by (simp add: os_path_dirname_def Let_def)
    with True nr show ?thesis by (simp add: parent_dir_def Let_def)
  next
    case False
    have good: "\<forall>c \<in> set ?cs. c \<noteq> [] \<and> CHR ''/'' \<notin> set c"
      using norm_comps_good by blast
    from join_slash_last [OF False good]
    have jl: "join_slash ?cs \<noteq> []" "last (join_slash ?cs) \<noteq> CHR ''/''" by simp_all
    let ?h = "?sl @ join_slash ?cs @ ''/''"
    have pre: "?pre = ?h" using False by simp
    have notall: "?h \<noteq> replicate (length ?h) CHR ''/''"
    proof
      assume "?h = replicate (length ?h) CHR ''/''"
      then have "set ?h \<subseteq> set (replicate (length ?h) CHR ''/'')" by simp
      then have "set ?h \<subseteq> {CHR ''/''}" by (auto simp del: set_append)
      moreover have "last (join_slash ?cs) \<in> set ?h" using jl(1) by simp
      ultimately show False using jl(2) by auto
    qed
    have "dropWhile (\<lambda>c. c = CHR ''/'') (rev ?h) = rev (join_slash ?cs) @ ?sl"
    proof -
      obtain a as where r: "rev (join_slash ?cs) = a # as" "a \<noteq> CHR ''/''"
        using jl by (cases "join_slash ?cs" rule: rev_cases) auto
      then show ?thesis by simp
    qed
    then have "rev (dropWhile (\<lambda>c. c = CHR ''/'') (rev ?h)) = ?sl @ join_slash ?cs"
      by simp
    with head pre notall
    have "os_path_dirname (os_path_normpath (os_path_join r n)) = ?sl @ join_slash ?cs"
      unfolding os_path_dirname_def Let_def by simp
    with jl(1) nr show ?thesis by (simp add: parent_dir_def Let_def)
  qed
qed

text \<open>
  Normalizing twice is normalizing once: in what the loop keeps, a \<^verbatim>\<open>..\<close> stands only at
  the front of a relative path.
\<close>

lemma dotdots_in_front_snoc:
  "dotdots_in_front ini (cs @ [c])
     = (dotdots_in_front ini cs \<and> (c = ''..'' \<longrightarrow> ini = 0 \<and> set cs \<subseteq> {''..''}))"
  by (induction cs) auto

lemma dotdots_in_front_butlast:
  "dotdots_in_front ini cs \<Longrightarrow> dotdots_in_front ini (butlast cs)"
  by (induction cs) (auto dest: in_set_butlastD)

lemma dotdots_in_front_last:
  "dotdots_in_front ini cs \<Longrightarrow> cs \<noteq> [] \<Longrightarrow> last cs = ''..'' \<Longrightarrow>
   ini = 0 \<and> set cs \<subseteq> {''..''}"
proof (induction cs)
  case Nil
  then show ?case by simp
next
  case (Cons a cs)
  show ?case
  proof (cases "cs = []")
    case True
    with Cons.prems show ?thesis by (auto split: if_splits)
  next
    case False
    with Cons.prems have l: "last cs = ''..''" by simp
    then have "''..'' \<in> set cs" using False last_in_set by metis
    with Cons.prems have "a = ''..''" and "ini = 0" and "dotdots_in_front ini cs"
      by (auto split: if_splits)
    with Cons.IH False l show ?thesis by simp
  qed
qed

lemma dotdots_in_front_prefix:
  "dotdots_in_front ini (xs @ ys) \<Longrightarrow> dotdots_in_front ini xs"
  by (induction xs) (auto split: if_splits)

lemma normpath_step_dotdots:
  assumes "dotdots_in_front ini acc"
  shows "dotdots_in_front ini (normpath_step ini acc c)"
proof (cases "c = [] \<or> c = ''.''")
  case True
  with assms show ?thesis by (simp add: normpath_step_def)
next
  case False
  show ?thesis
  proof (cases "c \<noteq> ''..'' \<or> (ini = 0 \<and> acc = []) \<or> (acc \<noteq> [] \<and> last acc = ''..'')")
    case True
    then have st: "normpath_step ini acc c = acc @ [c]"
      using False by (simp add: normpath_step_def)
    have "c = ''..'' \<longrightarrow> ini = 0 \<and> set acc \<subseteq> {''..''}"
      using True dotdots_in_front_last [OF assms] by auto
    with assms show ?thesis unfolding st dotdots_in_front_snoc by simp
  next
    case nb: False
    have "normpath_step ini acc c = (if acc \<noteq> [] then butlast acc else acc)"
      using nb False by (auto simp: normpath_step_def)
    with assms show ?thesis by (simp add: dotdots_in_front_butlast)
  qed
qed

lemma foldl_normpath_step_dotdots:
  "dotdots_in_front ini acc \<Longrightarrow> dotdots_in_front ini (foldl (normpath_step ini) acc xs)"
  by (induction xs arbitrary: acc) (auto simp: normpath_step_dotdots)

lemma norm_comps_dotdots: "dotdots_in_front ini (norm_comps ini s)"
  unfolding norm_comps_def by (rule foldl_normpath_step_dotdots) simp

lemma foldl_normpath_step_kept:
  assumes "\<forall>c \<in> set cs. c \<noteq> [] \<and> c \<noteq> ''.''" and "dotdots_in_front ini (acc @ cs)"
  shows "foldl (normpath_step ini) acc cs = acc @ cs"
  using assms
proof (induction cs arbitrary: acc)
  case Nil
  then show ?case by simp
next
  case (Cons c cs)
  from Cons.prems(2) have "dotdots_in_front ini ((acc @ [c]) @ cs)" by simp
  then have d: "dotdots_in_front ini (acc @ [c])" by (rule dotdots_in_front_prefix)
  then have "c = ''..'' \<longrightarrow> ini = 0 \<and> set acc \<subseteq> {''..''}"
    unfolding dotdots_in_front_snoc by simp
  then have "c = ''..'' \<longrightarrow> (ini = 0 \<and> acc = []) \<or> (acc \<noteq> [] \<and> last acc = ''..'')"
    by (cases acc rule: rev_cases) auto
  with Cons.prems(1) have st: "normpath_step ini acc c = acc @ [c]"
    by (auto simp: normpath_step_def)
  from Cons.IH [of "acc @ [c]"] Cons.prems show ?case by (simp add: st)
qed

lemma split_slash_join_slash:
  "cs \<noteq> [] \<Longrightarrow> \<forall>c \<in> set cs. CHR ''/'' \<notin> set c \<Longrightarrow> split_slash (join_slash cs) = cs"
proof (induction cs rule: join_slash.induct)
  case 1
  then show ?case by simp
next
  case (2 x)
  then show ?case by (simp add: split_slash_no_slash)
next
  case (3 x y ys)
  then show ?case by (simp add: split_slash_append split_slash_no_slash)
qed

lemma split_slash_slashes:
  "split_slash (replicate k CHR ''/'' @ t) = replicate k [] @ split_slash t"
  by (induction k) auto

lemma foldl_normpath_step_empties:
  "foldl (normpath_step ini) acc (replicate k [] @ xs) = foldl (normpath_step ini) acc xs"
  by (induction k) (auto simp: normpath_step_def)

lemma norm_comps_slashes: "norm_comps ini (replicate k CHR ''/'') = []"
proof -
  have "split_slash (replicate k CHR ''/'') = replicate k [] @ [[]]"
    using split_slash_slashes [of k "[]"] by simp
  then show ?thesis
    using foldl_normpath_step_empties [of ini "[]" k "[[]]"]
    by (simp add: norm_comps_def normpath_step_def)
qed

lemma initial_slashes_le: "initial_slashes s \<le> 2"
  by (simp add: initial_slashes_def)

lemma initial_slashes_rebuilt:
  assumes "ini \<le> 2" and "t = [] \<or> hd t \<noteq> CHR ''/''" and "replicate ini CHR ''/'' @ t \<noteq> []"
  shows "initial_slashes (replicate ini CHR ''/'' @ t) = ini"
proof -
  from assms(1) consider "ini = 0" | "ini = 1" | "ini = 2" by linarith
  then show ?thesis
  proof cases
    case 1
    with assms(2,3) show ?thesis
      by (cases t) (auto simp: initial_slashes_def startswith_def)
  next
    case 2
    with assms(2) show ?thesis
      by (cases t) (auto simp: initial_slashes_def startswith_def)
  next
    case 3
    then have "replicate ini CHR ''/'' = ''//''" by (simp add: numeral_2_eq_2)
    with assms(2) 3 show ?thesis
      by (cases t) (auto simp: initial_slashes_def startswith_def)
  qed
qed

lemma os_path_normpath_idem: "os_path_normpath (os_path_normpath s) = os_path_normpath s"
proof (cases "s = []")
  case True
  then show ?thesis
    by (simp add: os_path_normpath_def initial_slashes_def startswith_def normpath_step_def)
next
  case False
  let ?ini = "initial_slashes s"
  let ?cs = "norm_comps ?ini s"
  let ?p = "replicate ?ini CHR ''/'' @ join_slash ?cs"
  have nr: "os_path_normpath s = (if ?p = [] then ''.'' else ?p)"
    using os_path_normpath_comps [OF False] by (simp add: Let_def)
  show ?thesis
  proof (cases "?p = []")
    case True
    with nr have "os_path_normpath s = ''.''" by simp
    then show ?thesis
      by (simp add: os_path_normpath_def initial_slashes_def startswith_def normpath_step_def)
  next
    case ne: False
    have good: "\<forall>c \<in> set ?cs. c \<noteq> [] \<and> c \<noteq> ''.'' \<and> CHR ''/'' \<notin> set c"
      using norm_comps_good by blast
    have hd: "join_slash ?cs = [] \<or> hd (join_slash ?cs) \<noteq> CHR ''/''"
      using join_slash_head [of ?cs] good by (cases "?cs = []") auto
    have ini: "initial_slashes ?p = ?ini"
      by (rule initial_slashes_rebuilt [OF initial_slashes_le hd ne])
    have comps: "norm_comps ?ini ?p = ?cs"
    proof (cases "?cs = []")
      case True
      then show ?thesis by (simp add: norm_comps_slashes)
    next
      case nonempty: False
      have "split_slash ?p = replicate ?ini [] @ ?cs"
        using split_slash_slashes [of ?ini "join_slash ?cs"]
          split_slash_join_slash [OF nonempty] good by simp
      then have "norm_comps ?ini ?p = foldl (normpath_step ?ini) [] ?cs"
        using foldl_normpath_step_empties [of ?ini "[]" ?ini ?cs]
        by (simp add: norm_comps_def [of ?ini ?p])
      also have "\<dots> = ?cs"
        using foldl_normpath_step_kept [of ?cs ?ini "[]"] good norm_comps_dotdots [of ?ini s]
        by simp
      finally show ?thesis .
    qed
    from os_path_normpath_comps [OF ne]
    have "os_path_normpath ?p = (if ?p = [] then ''.'' else ?p)"
      unfolding ini comps Let_def .
    with nr ne show ?thesis by (simp only: if_False)
  qed
qed

lemma os_path_normpath_nonempty: "os_path_normpath s \<noteq> []"
  by (simp add: os_path_normpath_def Let_def)

subsection \<open>Excluded directories\<close>

lemma descend_names_valid:
  "names_valid n \<Longrightarrow> descend n cs = Some n' \<Longrightarrow> names_valid n'"
proof (induction cs arbitrary: n)
  case Nil
  then show ?case by simp
next
  case (Cons c cs)
  show ?case
  proof (cases n)
    case (Dir l es)
    with Cons.prems obtain t where t: "map_of es c = Some t" "descend t cs = Some n'"
      by (auto split: option.splits)
    from t(1) have "(c, t) \<in> set es" by (rule map_of_SomeD)
    with Cons.prems(1) Dir have "names_valid t" by auto
    then show ?thesis using t(2) by (rule Cons.IH)
  qed (use Cons.prems in auto)
qed

lemma set_apply_exclude_patterns:
  "set (apply_exclude_patterns x names pats) = {n \<in> set names. \<not> gitwildmatch x pats n}"
  by (auto simp: apply_exclude_patterns_def)

lemma walk_prune_kept:
  assumes "r \<noteq> []" and "\<forall>d \<in> set dirs. valid_name d"
    and "dn \<in> set (walk_prune x pats r dirs)"
  shows "dn \<in> set dirs \<and> \<not> excluded x pats (os_path_normpath (os_path_join r dn))"
proof -
  let ?paths = "map (\<lambda>dirname. os_path_normpath (os_path_join r dirname)) dirs"
  from assms(3) obtain q where
    q: "dn = os_path_basename q"
       "q \<in> set (if pats \<noteq> [] then apply_exclude_patterns x ?paths pats else ?paths)"
    by (auto simp: walk_prune_def Let_def)
  then have "q \<in> set ?paths \<and> \<not> excluded x pats q"
    by (auto simp: excluded_def set_apply_exclude_patterns split: if_splits)
  then obtain d0 where d0: "d0 \<in> set dirs" "q = os_path_normpath (os_path_join r d0)"
    and nq: "\<not> excluded x pats q" by auto
  from d0(1) assms(2) have "valid_name d0" by simp
  with q(1) d0(2) assms(1) have "dn = d0" by (simp add: basename_normpath_join)
  with d0 nq show ?thesis by simp
qed

lemma dir_names_valid:
  "\<forall>e \<in> set es. valid_name (fst e) \<and> names_valid (snd e) \<Longrightarrow>
   \<forall>d \<in> set (dir_names es). valid_name d"
  by (auto simp: dir_names_def)

lemma nondir_names_valid:
  "\<forall>e \<in> set es. valid_name (fst e) \<and> names_valid (snd e) \<Longrightarrow>
   \<forall>f \<in> set (nondir_names es). valid_name f"
  by (auto simp: nondir_names_def)

lemma os_path_join_nonempty_right: "valid_name n \<Longrightarrow> os_path_join r n \<noteq> []"
  by (auto simp: os_path_join_def valid_name_def)

lemma os_walk_levels:
  assumes "r \<noteq> []" and "\<forall>e \<in> set es. valid_name (fst e) \<and> names_valid (snd e)"
    and "(r', files) \<in> set (os_walk fl (walk_prune x pats) r es)"
  shows "r' \<noteq> [] \<and> (\<forall>f \<in> set files. valid_name f)
         \<and> (r' = r \<or> \<not> excluded x pats (os_path_normpath r'))"
  using assms
proof (induction fl "walk_prune x pats" r es arbitrary: r' files rule: os_walk.induct)
  case (1 followlinks walk_top es)
  from "1.prems"(3)
  have "(r', files) = (walk_top, nondir_names es)
        \<or> (\<exists>dn \<in> set (walk_prune x pats walk_top (dir_names es)).
              (r', files) \<in> set (case map_of es dn of
                   Some (Dir l sub) \<Rightarrow>
                     if followlinks \<or> \<not> l
                     then os_walk followlinks (walk_prune x pats) (os_path_join walk_top dn) sub
                     else []
                 | _ \<Rightarrow> []))"
    by (subst (asm) os_walk.simps) auto
  then show ?case
  proof
    assume "(r', files) = (walk_top, nondir_names es)"
    with "1.prems"(1,2) nondir_names_valid [of es] show ?thesis by auto
  next
    assume "\<exists>dn \<in> set (walk_prune x pats walk_top (dir_names es)).
              (r', files) \<in> set (case map_of es dn of
                   Some (Dir l sub) \<Rightarrow>
                     if followlinks \<or> \<not> l
                     then os_walk followlinks (walk_prune x pats) (os_path_join walk_top dn) sub
                     else []
                 | _ \<Rightarrow> [])"
    then obtain dn where b1: "dn \<in> set (walk_prune x pats walk_top (dir_names es))"
      and mem: "(r', files) \<in> set (case map_of es dn of
                   Some (Dir l sub) \<Rightarrow>
                     if followlinks \<or> \<not> l
                     then os_walk followlinks (walk_prune x pats) (os_path_join walk_top dn) sub
                     else []
                 | _ \<Rightarrow> [])"
      by blast
    from mem obtain n where n: "map_of es dn = Some n" by (cases "map_of es dn") auto
    with mem obtain l sub where d: "n = Dir l sub" by (cases n) auto
    with mem n have b3: "followlinks \<or> \<not> l"
      and b4: "(r', files)
                 \<in> set (os_walk followlinks (walk_prune x pats) (os_path_join walk_top dn) sub)"
      by (auto split: if_splits)
    from walk_prune_kept [OF "1.prems"(1) dir_names_valid [OF "1.prems"(2)] b1]
    have nx: "\<not> excluded x pats (os_path_normpath (os_path_join walk_top dn))" by simp
    from n d have "(dn, Dir l sub) \<in> set es" by (auto dest: map_of_SomeD)
    with "1.prems"(2) have "valid_name (fst (dn, Dir l sub)) \<and> names_valid (snd (dn, Dir l sub))"
      by blast
    then have vn: "valid_name dn"
      and vs: "\<forall>e \<in> set sub. valid_name (fst e) \<and> names_valid (snd e)" by simp_all
    have ne: "os_path_join walk_top dn \<noteq> []" using vn by (rule os_path_join_nonempty_right)
    from "1.hyps" [OF b1 n d b3 ne vs b4] nx
    show ?thesis by auto
  qed
qed

lemma walk_filepaths_set:
  assumes "p \<in> set (walk_filepaths x pats w r files)"
  shows "\<exists>f \<in> set files. p = os_path_normpath (os_path_join r f) \<and> \<not> excluded x pats p"
  using assms
  by (auto simp: walk_filepaths_def Let_def excluded_def set_apply_exclude_patterns
      split: if_splits)

lemma apply_left_strip_key:
  "apply_left_strip (replace_backslash p) d ls = Inr k \<Longrightarrow> k = key_of ls p"
  by (auto simp: apply_left_strip_def key_of_def Let_def split: if_splits)

lemma record_files_keys:
  "record_files x nle ls fps d w = (Inr d', w') \<Longrightarrow> k \<in> dom d' \<Longrightarrow>
   k \<in> dom d \<or> (\<exists>p \<in> set fps. k = key_of ls p)"
proof (induction fps arbitrary: d w)
  case Nil
  then show ?case by simp
next
  case (Cons fp fps)
  from Cons.prems(1) obtain k1 h w1 where
    s: "apply_left_strip (replace_backslash fp) d ls = Inr k1"
       "record_files x nle ls fps (d(k1 \<mapsto> h)) w1 = (Inr d', w')"
    by (auto split: sum.splits prod.splits)
  from Cons.IH [OF s(2) Cons.prems(2)]
  have "k \<in> dom (d(k1 \<mapsto> h)) \<or> (\<exists>p \<in> set fps. k = key_of ls p)" .
  with apply_left_strip_key [OF s(1)] show ?case by auto
qed

lemma record_walk_keys:
  assumes "\<forall>lv \<in> set levels. fst lv \<noteq> [] \<and> (\<forall>f \<in> set (snd lv). valid_name f)
             \<and> \<not> excluded x pats (os_path_normpath (fst lv))"
    and "record_walk x pats nle ls levels d w = (Inr d', w')" and "k \<in> dom d'"
  shows "k \<in> dom d
         \<or> (\<exists>p. k = key_of ls p \<and> \<not> excluded x pats p \<and> \<not> excluded x pats (parent_dir p))"
  using assms
proof (induction levels arbitrary: d w)
  case Nil
  then show ?case by simp
next
  case (Cons lv levels)
  obtain r files where lv: "lv = (r, files)" by force
  from Cons.prems(2) lv obtain d1 w1 where
    s: "record_files x nle ls (walk_filepaths x pats w r files) d w = (Inr d1, w1)"
       "record_walk x pats nle ls levels d1 w1 = (Inr d', w')"
    by (auto split: sum.splits prod.splits)
  from Cons.prems(1) lv have r: "r \<noteq> []" "\<forall>f \<in> set files. valid_name f"
    "\<not> excluded x pats (os_path_normpath r)" by auto
  have rest: "\<forall>lv \<in> set levels. fst lv \<noteq> [] \<and> (\<forall>f \<in> set (snd lv). valid_name f)
             \<and> \<not> excluded x pats (os_path_normpath (fst lv))"
    using Cons.prems(1) by simp
  from Cons.IH [OF rest s(2) Cons.prems(3)]
  show ?case
  proof
    assume "k \<in> dom d1"
    from record_files_keys [OF s(1) this]
    show ?thesis
    proof
      assume "k \<in> dom d"
      then show ?thesis by simp
    next
      assume "\<exists>p \<in> set (walk_filepaths x pats w r files). k = key_of ls p"
      then obtain p where p: "p \<in> set (walk_filepaths x pats w r files)" "k = key_of ls p"
        by blast
      from walk_filepaths_set [OF p(1)] obtain f where
        f: "f \<in> set files" "p = os_path_normpath (os_path_join r f)" "\<not> excluded x pats p"
        by blast
      from f(1) r(2) have "valid_name f" by simp
      with r(1) f(2) have "parent_dir p = os_path_normpath r"
        by (simp add: parent_dir_normpath_join)
      with r(3) f(3) p(2) show ?thesis by auto
    qed
  next
    assume "\<exists>p. k = key_of ls p \<and> \<not> excluded x pats p \<and> \<not> excluded x pats (parent_dir p)"
    then show ?thesis by simp
  qed
qed

lemma stat_names_valid:
  "names_valid (root w) \<Longrightarrow> stat w p = Some n \<Longrightarrow> names_valid n"
  unfolding stat_def by (rule descend_names_valid)

lemma record_each_keys:
  assumes "names_valid (root w)"
    and "\<forall>a \<in> set arts. a \<noteq> [] \<and> os_path_normpath a = a \<and> \<not> excluded x pats a"
    and "record_each x pats fl nle ls arts d w = (Inr d', w')" and "k \<in> dom d'"
  shows "k \<in> dom d
         \<or> (\<exists>p. k = key_of ls p \<and> \<not> excluded x pats p
                \<and> (p \<in> set arts \<or> \<not> excluded x pats (parent_dir p)))"
  using assms
proof (induction arts arbitrary: d w)
  case Nil
  then show ?case by simp
next
  case (Cons a arts)
  from Cons.prems(2) have a: "a \<noteq> []" "os_path_normpath a = a" "\<not> excluded x pats a"
    and rest: "\<forall>b \<in> set arts. b \<noteq> [] \<and> os_path_normpath b = b \<and> \<not> excluded x pats b"
    by simp_all
  show ?case
  proof (cases "os_path_isfile w a")
    case True
    with Cons.prems(3) obtain k1 h w1 where
      s: "apply_left_strip (replace_backslash a) d ls = Inr k1"
         "hash_artifact x (replace_backslash a) [] nle w = (Inr h, w1)"
         "record_each x pats fl nle ls arts (d(k1 \<mapsto> h)) w1 = (Inr d', w')"
      by (auto simp: Let_def split: sum.splits prod.splits)
    from hash_artifact_frame [OF s(2)] have "root w1 = root w" by (rule digests_under_frame)
    with Cons.prems(1) have v1: "names_valid (root w1)" by simp
    have k1: "k1 = key_of ls a" using s(1) by (rule apply_left_strip_key)
    from Cons.IH [OF v1 rest s(3) Cons.prems(4)]
    show ?thesis
    proof
      assume "k \<in> dom (d(k1 \<mapsto> h))"
      then have "k \<in> dom d \<or> k = k1" by auto
      then show ?thesis
      proof
        assume "k = k1"
        with k1 a(3) have "k = key_of ls a \<and> \<not> excluded x pats a \<and> a \<in> set (a # arts)"
          by simp
        then show ?thesis by blast
      qed simp
    next
      assume "\<exists>p. k = key_of ls p \<and> \<not> excluded x pats p
                \<and> (p \<in> set arts \<or> \<not> excluded x pats (parent_dir p))"
      then show ?thesis by auto
    qed
  next
    case False
    show ?thesis
    proof (cases "\<exists>l es. stat w a = Some (Dir l es)")
      case True
      then obtain l es where st: "stat w a = Some (Dir l es)" by blast
      let ?levels = "os_walk fl (walk_prune x pats) a es"
      from Cons.prems(3) False st obtain d1 w1 where
        s: "record_walk x pats nle ls ?levels d w = (Inr d1, w1)"
           "record_each x pats fl nle ls arts d1 w1 = (Inr d', w')"
        by (auto split: sum.splits prod.splits)
      from record_walk_frame [OF s(1)] have "root w1 = root w" by (rule digests_under_frame)
      with Cons.prems(1) have v1: "names_valid (root w1)" by simp
      from stat_names_valid [OF Cons.prems(1) st]
      have es: "\<forall>e \<in> set es. valid_name (fst e) \<and> names_valid (snd e)" by simp
      have lv: "\<forall>lv \<in> set ?levels. fst lv \<noteq> [] \<and> (\<forall>f \<in> set (snd lv). valid_name f)
             \<and> \<not> excluded x pats (os_path_normpath (fst lv))"
      proof
        fix lv assume m: "lv \<in> set ?levels"
        obtain r' files where lvp: "lv = (r', files)" by force
        from os_walk_levels [OF a(1) es, of r' files fl x pats] m lvp a(2,3)
        show "fst lv \<noteq> [] \<and> (\<forall>f \<in> set (snd lv). valid_name f)
             \<and> \<not> excluded x pats (os_path_normpath (fst lv))"
          by auto
      qed
      from Cons.IH [OF v1 rest s(2) Cons.prems(4)]
      show ?thesis
      proof
        assume "k \<in> dom d1"
        from record_walk_keys [OF lv s(1) this] show ?thesis by auto
      next
        assume "\<exists>p. k = key_of ls p \<and> \<not> excluded x pats p
                \<and> (p \<in> set arts \<or> \<not> excluded x pats (parent_dir p))"
        then show ?thesis by auto
      qed
    next
      case nodir: False
      with Cons.prems(3) False have "record_each x pats fl nle ls arts d w = (Inr d', w')"
        by (auto split: option.splits node.splits)
      from Cons.IH [OF Cons.prems(1) rest this Cons.prems(4)] show ?thesis by auto
    qed
  qed
qed

text \<open>
  What the scan guarantees. In a file system whose entries have proper names, every key of
  the map that \<^verbatim>\<open>record_artifacts_as_dict\<close> returns is the key (backslashes replaced,
  strip prefix removed) of a scanned path that did not match the exclude patterns in force,
  and that path is one of the normalized artifacts passed, or its parent directory path
  did not match the patterns either: the walk filters the path of the root directory and
  of every directory below it before it goes into it.
\<close>

lemma record_artifacts_as_dict_excluded:
  assumes "names_valid (root w)"
    and "record_artifacts_as_dict x artifacts exclude_patterns base_path follow_symlink_dirs
           normalize_line_endings lstrip_paths w = (Inr d, w')"
    and "k \<in> dom d"
    and "pats = effective_exclude_patterns x exclude_patterns"
  shows "\<exists>p. k = key_of lstrip_paths p
            \<and> \<not> excluded x pats p
            \<and> (p \<in> set (map os_path_normpath artifacts)
               \<or> \<not> excluded x pats (parent_dir p))"
proof -
  have ne: "artifacts \<noteq> []"
    using assms(2,3) by (auto simp: record_artifacts_as_dict_def)
  let ?base = "effective_base_path x base_path"
  from assms(2) ne obtain w1 where enter: "enter_base_path ?base w = Inr w1"
    by (auto simp: record_artifacts_as_dict_def Let_def split: sum.splits)
  from enter_base_path_frame [OF enter] assms(1) have v1: "names_valid (root w1)" by simp
  from assms(2) ne enter obtain w2 where
    scan: "scan_artifacts x artifacts exclude_patterns follow_symlink_dirs
             normalize_line_endings lstrip_paths w1 = (Inr d, w2)"
    by (auto simp: record_artifacts_as_dict_def Let_def split: sum.splits prod.splits if_splits)
  let ?norm = "map os_path_normpath artifacts"
  let ?arts = "if pats \<noteq> [] then apply_exclude_patterns x ?norm pats else ?norm"
  from scan assms(4) have each:
    "record_each x pats follow_symlink_dirs normalize_line_endings lstrip_paths ?arts
       Map.empty w1 = (Inr d, w2)"
    by (auto simp: scan_artifacts_def Let_def split: if_splits option.splits)
  have sub: "set ?arts \<subseteq> set ?norm"
    by (auto simp: set_apply_exclude_patterns)
  have arts: "\<forall>a \<in> set ?arts. a \<noteq> [] \<and> os_path_normpath a = a \<and> \<not> excluded x pats a"
    by (auto simp: set_apply_exclude_patterns excluded_def os_path_normpath_idem
        os_path_normpath_nonempty)
  from record_each_keys [OF v1 arts each assms(3)] sub show ?thesis by auto
qed

lemma os_walk_example:
  "os_walk True (walk_prune ext_anchored [''/sub'', ''!/sub/x'']) ''.''
     [(''x'', File ''one''), (''sub'', Dir False [(''x'', File ''two'')])]
   = [(''.'', [''x''])]"
  by code_simp

lemma ext_anchored_fields:
  "gitwildmatch ext_anchored = anchored_match"
  "NAMES_SCHEMA ext_anchored ns"
  "HASHALGORITHMS_SCHEMA ext_anchored algs"
  "HASHDICT_SCHEMA ext_anchored h"
  "digest_filename ext_anchored a nle c = Inr c"
  "ARTIFACT_BASE_PATH ext_anchored = None"
  "ARTIFACT_EXCLUDE_PATTERNS ext_anchored = []"
  by (simp_all add: ext_anchored_def ext_example_def)

lemma names_valid_example: "names_valid (root world_example)"
  by (simp add: world_example_def root_example_def valid_name_def)

lemma record_artifacts_as_dict_excluded_example:
  "names_valid (root world_example)
   \<and> (\<exists>d w'. record_artifacts_as_dict ext_anchored [''.''] [''/sub'', ''!/sub/x''] None
                True False [] world_example = (Inr d, w')
          \<and> ''x'' \<in> dom d \<and> ''sub/x'' \<notin> dom d
          \<and> (\<exists>p. ''x'' = key_of [] p
                \<and> \<not> excluded ext_anchored [''/sub'', ''!/sub/x''] p
                \<and> (p \<in> set (map os_path_normpath [''.''])
                   \<or> \<not> excluded ext_anchored [''/sub'', ''!/sub/x''] (parent_dir p))))"
proof -
  let ?pats = "[''/sub'', ''!/sub/x'']"
  obtain r w' where
    run: "record_artifacts_as_dict ext_anchored [''.''] ?pats None True False []
            world_example = (r, w')" by force
  have "fst (record_artifacts_as_dict ext_anchored [''.''] ?pats None True False []
            world_example) = Inr [''x'' \<mapsto> [''sha256'' \<mapsto> ''one'']]"
    by (simp add: ext_anchored_fields os_walk_example anchored_match_def
        world_example_def root_example_def path_defs world_defs Let_def
        hash_artifact_def apply_exclude_patterns_def apply_left_strip_def nondir_names_def
        walk_filepaths_def effective_base_path_def effective_exclude_patterns_def
        enter_base_path_def scan_artifacts_def record_artifacts_as_dict_def)
  with run have r: "r = Inr [''x'' \<mapsto> [''sha256'' \<mapsto> ''one'']]" by simp
  have p: "?pats = effective_exclude_patterns ext_anchored ?pats"
    by (simp add: effective_exclude_patterns_def)
  have k: "''x'' \<in> dom [''x'' \<mapsto> [''sha256'' \<mapsto> ''one'']]" by simp
  from record_artifacts_as_dict_excluded [OF names_valid_example run [unfolded r] k p]
  have "\<exists>p. ''x'' = key_of [] p
                \<and> \<not> excluded ext_anchored ?pats p
                \<and> (p \<in> set (map os_path_normpath [''.''])
                   \<or> \<not> excluded ext_anchored ?pats (parent_dir p))" .
  with names_valid_example run r show ?thesis by simp
qed

text \<open>
  Claim C4 says that the map never has a key whose parent directory path matched an
  exclude pattern; the documentation of the function says that with a directory all its
  files and subdirectories are excluded. A file that is itself passed as an artifact is
  filtered by its own path only: with the patterns \<^verbatim>\<open>/sub\<close> and \<^verbatim>\<open>!/sub/x\<close> the directory
  \<^verbatim>\<open>sub\<close> matches, the file \<^verbatim>\<open>sub/x\<close> does not, and the artifact \<^verbatim>\<open>sub/x\<close> is
  recorded. The walk of the directory that holds \<^verbatim>\<open>sub\<close> leaves the file out under the
  same patterns.
\<close>

theorem record_artifacts_as_dict_excluded_parent:
  "gitwildmatch ext_anchored [''/sub'', ''!/sub/x''] (parent_dir ''sub/x'')
   \<and> \<not> gitwildmatch ext_anchored [''/sub'', ''!/sub/x''] ''sub/x''
   \<and> fst (record_artifacts_as_dict ext_anchored [''sub/x''] [''/sub'', ''!/sub/x''] None True
            False [] world_example)
       = Inr [''sub/x'' \<mapsto> [''sha256'' \<mapsto> ''two'']]
   \<and> fst (record_artifacts_as_dict ext_anchored [''.''] [''/sub'', ''!/sub/x''] None True
            False [] world_example)
       = Inr [''x'' \<mapsto> [''sha256'' \<mapsto> ''one'']]"
proof -
  have "gitwildmatch ext_anchored [''/sub'', ''!/sub/x''] (parent_dir ''sub/x'')"
    and "\<not> gitwildmatch ext_anchored [''/sub'', ''!/sub/x''] ''sub/x''"
    by (simp_all add: ext_anchored_def anchored_match_def parent_dir_def path_defs)
  moreover
  have "fst (record_artifacts_as_dict ext_anchored [''sub/x''] [''/sub'', ''!/sub/x''] None
               True False [] world_example)
          = Inr [''sub/x'' \<mapsto> [''sha256'' \<mapsto> ''two'']]"
    by (simp add: ext_anchored_def anchored_match_def example_defs path_defs world_defs
        scan_defs Let_def)
  moreover
  have "fst (record_artifacts_as_dict ext_anchored [''.''] [''/sub'', ''!/sub/x''] None True
               False [] world_example)
          = Inr [''x'' \<mapsto> [''sha256'' \<mapsto> ''one'']]"
    by (simp add: ext_anchored_fields os_walk_example anchored_match_def
        world_example_def root_example_def path_defs world_defs Let_def
        hash_artifact_def apply_exclude_patterns_def apply_left_strip_def nondir_names_def
        walk_filepaths_def effective_base_path_def effective_exclude_patterns_def
        enter_base_path_def scan_artifacts_def record_artifacts_as_dict_def)
  ultimately show ?thesis by simp
qed

end
